theory Spec2Isabelle
  imports Main
begin

section \<open>Values exchanged with the search service\<close>

text \<open>
  The scraper works on the dictionaries that \<^verbatim>\<open>GoogleSearch(params).get_dict()\<close> decodes
  from the service's JSON answer. A decoded document is a \<open>json\<close> value; a dictionary is an
  association list read with \<open>map_of\<close>. Numbers are Python integers (unbounded); the
  service's floating point numbers are not modelled. Strings are byte lists.
\<close>

datatype json =
    JNull
  | JBool bool
  | JInt int
  | JStr string
  | JList "json list"
  | JDict "(string \<times> json) list"

text \<open>
  The exception classes that occur. Every one but \<open>KeyboardInterrupt\<close> derives from
  Python's \<open>Exception\<close>.
\<close>

datatype exn =
    KeyError
  | ConnectionError
  | AttributeError
  | TypeError
  | ValueError
  | OtherException
  | KeyboardInterrupt

definition is_Exception :: "exn \<Rightarrow> bool" where
  "is_Exception e = (e \<noteq> KeyboardInterrupt)"

text \<open>Sequencing of computations that may raise.\<close>

definition bnd :: "exn + 'a \<Rightarrow> ('a \<Rightarrow> exn + 'b) \<Rightarrow> exn + 'b" where
  "bnd m f = (case m of Inl e \<Rightarrow> Inl e | Inr v \<Rightarrow> f v)"

text \<open>Python's truth value of an object, as \<^verbatim>\<open>if x:\<close> tests it.\<close>

fun truthy :: "json \<Rightarrow> bool" where
  "truthy JNull = False"
| "truthy (JBool b) = b"
| "truthy (JInt i) = (i \<noteq> 0)"
| "truthy (JStr s) = (s \<noteq> [])"
| "truthy (JList xs) = (xs \<noteq> [])"
| "truthy (JDict d) = (d \<noteq> [])"

fun is_dict :: "json \<Rightarrow> bool" where
  "is_dict (JDict d) = True"
| "is_dict _ = False"

fun is_list :: "json \<Rightarrow> bool" where
  "is_list (JList xs) = True"
| "is_list _ = False"

text \<open>
  \<^verbatim>\<open>x.get(key, default)\<close>: a dictionary answers with the stored value or the default;
  any other object has no attribute \<open>get\<close>.
\<close>

fun dict_get :: "json \<Rightarrow> string \<Rightarrow> json \<Rightarrow> exn + json" where
  "dict_get (JDict d) k dflt = Inr (case map_of d k of None \<Rightarrow> dflt | Some v \<Rightarrow> v)"
| "dict_get _ k dflt = Inl AttributeError"

subsection \<open>Strings\<close>

text \<open>\<^verbatim>\<open>s.lower()\<close> on the ASCII letters; other bytes are left as they are.\<close>

definition lower_char :: "char \<Rightarrow> char" where
  "lower_char c =
     (case map_of (zip ''ABCDEFGHIJKLMNOPQRSTUVWXYZ'' ''abcdefghijklmnopqrstuvwxyz'') c of
        None \<Rightarrow> c
      | Some l \<Rightarrow> l)"

definition lower :: "string \<Rightarrow> string" where
  "lower s = map lower_char s"

text \<open>\<^verbatim>\<open>sub in s\<close> for two strings: \<open>sub\<close> occurs as a contiguous piece of \<open>s\<close>.\<close>

fun contains :: "string \<Rightarrow> string \<Rightarrow> bool" where
  "contains sub [] = (sub = [])"
| "contains sub (c # cs) = (take (length sub) (c # cs) = sub \<or> contains sub cs)"

text \<open>\<^verbatim>\<open>s.strip()\<close>: ASCII white space is removed at both ends.\<close>

definition is_space :: "char \<Rightarrow> bool" where
  "is_space c =
     (c \<in> set [CHR 0x09, CHR 0x0A, CHR 0x0B, CHR 0x0C, CHR 0x0D,
                CHR 0x1C, CHR 0x1D, CHR 0x1E, CHR 0x1F, CHR 0x20])"

definition strip :: "string \<Rightarrow> string" where
  "strip s = rev (dropWhile is_space (rev (dropWhile is_space s)))"

text \<open>\<^verbatim>\<open>sep.join(items)\<close>: every item has to be a string, or TypeError is raised.\<close>

fun str_items :: "json list \<Rightarrow> exn + string list" where
  "str_items [] = Inr []"
| "str_items (JStr s # xs) = bnd (str_items xs) (\<lambda>ss. Inr (s # ss))"
| "str_items (_ # xs) = Inl TypeError"

fun intercalate :: "string \<Rightarrow> string list \<Rightarrow> string" where
  "intercalate sep [] = []"
| "intercalate sep [s] = s"
| "intercalate sep (s # t # ss) = s @ sep @ intercalate sep (t # ss)"

definition join :: "string \<Rightarrow> json list \<Rightarrow> exn + string" where
  "join sep items = bnd (str_items items) (\<lambda>ss. Inr (intercalate sep ss))"

text \<open>
  \<^verbatim>\<open>str(x)\<close>. A string is returned as it is, an integer in decimal, \<open>None\<close> and the
  truth values by their names. Inside a list or dictionary Python prints the \<open>repr\<close> of
  the members. The \<open>repr\<close> of a string is put between apostrophes, or between double
  quotes when the string holds an apostrophe and no double quote; the quote used and
  the backslash are escaped by a backslash, tab, newline and carriage return are
  written \<^verbatim>\<open>\t\<close>, \<^verbatim>\<open>\n\<close>, \<^verbatim>\<open>\r\<close>, and the other control characters in hexadecimal. Bytes
  above 127 are left as they are.
\<close>

definition repr_char :: "char \<Rightarrow> char \<Rightarrow> string" where
  "repr_char q c =
     (if c = q \<or> c = CHR 0x5C then [CHR 0x5C, c]
      else if c = CHR 0x09 then [CHR 0x5C, CHR ''t'']
      else if c = CHR 0x0A then [CHR 0x5C, CHR ''n'']
      else if c = CHR 0x0D then [CHR 0x5C, CHR ''r'']
      else if (of_char c :: nat) < 32 \<or> c = CHR 0x7F
      then [CHR 0x5C, CHR ''x'', ''0123456789abcdef'' ! ((of_char c :: nat) div 16),
            ''0123456789abcdef'' ! ((of_char c :: nat) mod 16)]
      else [c])"

definition repr_str :: "string \<Rightarrow> string" where
  "repr_str s =
     (let q = (if CHR 0x27 \<in> set s \<and> CHR 0x22 \<notin> set s then CHR 0x22 else CHR 0x27)
      in [q] @ concat (map (repr_char q) s) @ [q])"

fun digits_of_nat :: "nat \<Rightarrow> string" where
  "digits_of_nat n =
     (if n < 10 then [''0123456789'' ! n]
      else digits_of_nat (n div 10) @ [''0123456789'' ! (n mod 10)])"

declare digits_of_nat.simps [simp del]

definition str_int :: "int \<Rightarrow> string" where
  "str_int i = (if i < 0 then CHR ''-'' # digits_of_nat (nat (- i)) else digits_of_nat (nat i))"

fun py_repr :: "json \<Rightarrow> string" where
  "py_repr JNull = ''None''"
| "py_repr (JBool b) = (if b then ''True'' else ''False'')"
| "py_repr (JInt i) = str_int i"
| "py_repr (JStr s) = repr_str s"
| "py_repr (JList xs) = ''['' @ intercalate '', '' (map py_repr xs) @ '']''"
| "py_repr (JDict d) =
     ''{'' @ intercalate '', ''
        (map (\<lambda>kv. repr_str (fst kv) @ '': '' @ py_repr (snd kv)) d) @ ''}''"

fun py_str :: "json \<Rightarrow> string" where
  "py_str (JStr s) = s"
| "py_str v = py_repr v"

section \<open>The error classifier\<close>

text \<open>
  \<open>handle_api_error\<close> returns the pair \<open>(continue_scraping, error_type)\<close>; the page number
  is only printed. The messages it prints are not modelled. A \<open>results\<close> object that is
  not a dictionary makes \<^verbatim>\<open>"error" in results\<close> or \<^verbatim>\<open>results.get\<close> raise.
\<close>

fun handle_api_error :: "json \<Rightarrow> nat \<Rightarrow> exn + (bool \<times> string option)" where
  "handle_api_error (JDict d) page_num =
     (case map_of d ''error'' of
        Some error_msg \<Rightarrow>
          (case error_msg of
             JStr m \<Rightarrow>
               (if contains ''rate limit'' (lower m) \<or> contains ''too many requests'' (lower m)
                then Inr (False, Some ''rate_limit'')
                else if contains ''forbidden'' (lower m) \<or> contains ''unauthorized'' (lower m)
                then Inr (False, Some ''access_denied'')
                else if contains ''captcha'' (lower m) \<or> contains ''blocked'' (lower m)
                then Inr (True, Some ''captcha'')
                else if contains ''no results'' (lower m) \<or> contains ''hasn't returned'' (lower m)
                then Inr (False, Some ''no_results'')
                else Inr (True, Some ''generic_error''))
           | _ \<Rightarrow> Inl AttributeError)
      | None \<Rightarrow>
          bnd (dict_get (JDict d) ''search_metadata'' (JDict [])) (\<lambda>search_metadata.
          bnd (dict_get search_metadata ''status'' (JStr ''Unknown'')) (\<lambda>status.
          if status = JStr ''Error'' then Inr (True, Some ''processing_error'')
          else
            bnd (dict_get (JDict d) ''search_information'' (JDict [])) (\<lambda>search_info.
            bnd (dict_get search_info ''organic_results_state'' (JStr [])) (\<lambda>results_state.
            (case results_state of
               JStr rs \<Rightarrow>
                 (if contains ''empty'' (lower rs) then Inr (False, Some ''empty_results'')
                  else Inr (True, None))
             | _ \<Rightarrow> Inl AttributeError))))))"
| "handle_api_error (JStr s) page_num = Inl AttributeError"
| "handle_api_error (JList xs) page_num = Inl AttributeError"
| "handle_api_error _ page_num = Inl TypeError"

text \<open>\<^verbatim>\<open>if error_type:\<close> on the second component: \<open>None\<close> and the empty string are false.\<close>

fun truthy_type :: "string option \<Rightarrow> bool" where
  "truthy_type None = False"
| "truthy_type (Some t) = (t \<noteq> [])"

section \<open>The record normalizer\<close>

text \<open>
  \<open>safe_get_field\<close> takes one key or a list of keys. With a list it walks the keys and
  replaces a false value by the default; with one key it is \<^verbatim>\<open>data.get(keys, default)\<close>.
  AttributeError, TypeError and KeyError are caught and answered by the default.
\<close>

datatype keys = Single string | Path "string list"

fun walk :: "json \<Rightarrow> string list \<Rightarrow> exn + json" where
  "walk v [] = Inr v"
| "walk v (k # ks) = bnd (dict_get v k (JDict [])) (\<lambda>v'. walk v' ks)"

definition safe_get_field :: "json \<Rightarrow> keys \<Rightarrow> json \<Rightarrow> exn + json" where
  "safe_get_field data ks dflt =
     (case (case ks of
              Path path \<Rightarrow> bnd (walk data path) (\<lambda>v. Inr (if truthy v then v else dflt))
            | Single k \<Rightarrow> dict_get data k dflt) of
        Inl e \<Rightarrow> if e \<in> {AttributeError, TypeError, KeyError} then Inr dflt else Inl e
      | Inr v \<Rightarrow> Inr v)"

record article_record =
  title :: json
  authors :: string
  publication :: json
  year :: json
  cited_by :: json
  link :: json

text \<open>One entry of the authors list, as the list comprehension computes it.\<close>

fun author_entry :: "json \<Rightarrow> json" where
  "author_entry (JDict a) = (case map_of a ''name'' of None \<Rightarrow> JStr ''Unknown'' | Some n \<Rightarrow> n)"
| "author_entry a = JStr (py_str a)"

definition extract_authors :: "json \<Rightarrow> exn + string" where
  "extract_authors authors_list =
     (if is_list authors_list \<and> truthy authors_list
      then (case authors_list of JList entries \<Rightarrow> join '', '' (map author_entry entries)
            | _ \<Rightarrow> Inr ''N/A'')
      else Inr ''N/A'')"

text \<open>
  The body of the loop over \<^verbatim>\<open>results["organic_results"]\<close> in \<open>search_articles\<close>, up to
  the dictionary it appends: the normalization of one raw item.
\<close>

definition normalize_article :: "json \<Rightarrow> exn + article_record" where
  "normalize_article article =
     bnd (safe_get_field article (Single ''title'') (JStr ''Untitled'')) (\<lambda>t.
     bnd (dict_get article ''publication_info'' (JDict [])) (\<lambda>pub_info.
     bnd (dict_get pub_info ''authors'' (JList [])) (\<lambda>authors_list.
     bnd (extract_authors authors_list) (\<lambda>a.
     bnd (dict_get article ''inline_links'' (JDict [])) (\<lambda>inline_links.
     bnd (dict_get inline_links ''cited_by'' (JDict [])) (\<lambda>cited_by_info.
     bnd (if is_dict cited_by_info then dict_get cited_by_info ''total'' (JInt 0)
          else Inr (JInt 0)) (\<lambda>c.
     bnd (safe_get_field article (Single ''link'') (JStr ''No URL available'')) (\<lambda>l.
     bnd (safe_get_field pub_info (Single ''summary'') (JStr ''N/A'')) (\<lambda>p.
     bnd (safe_get_field article (Single ''year'') (JStr ''N/A'')) (\<lambda>y.
     Inr \<lparr>title = t, authors = a, publication = p, year = y, cited_by = c, link = l\<rparr>
     ))))))))))"

section \<open>The fetch orchestrator\<close>

subsection \<open>The outside world\<close>

text \<open>
  The parameters of one request, and what the call \<^verbatim>\<open>GoogleSearch(params).get_dict()\<close>
  does: it answers with a document or raises. The service may answer differently each
  time, so the answer depends on the number of calls made before. \<^verbatim>\<open>time.sleep\<close> may be
  interrupted by the user (KeyboardInterrupt); whether the k-th wait is interrupted is
  part of the environment too.
\<close>

record params =
  p_engine :: string
  p_q :: string
  p_api_key :: string
  p_start :: int
  p_num :: int

datatype fetch_outcome = Response json | Failure exn

record env =
  get_dict :: "nat \<Rightarrow> params \<Rightarrow> fetch_outcome"
  interrupt :: "nat \<Rightarrow> bool"

text \<open>
  The state of a run: \<open>self.results\<close>, the local counter \<open>consecutive_errors\<close>, and the
  requests and waits made so far, in order.
\<close>

record run_state =
  self_results :: "article_record list"
  consecutive_errors :: nat
  fetch_log :: "params list"
  sleep_log :: "int list"

text \<open>The constants that \<open>__init__\<close> and \<open>search_articles\<close> fix.\<close>

definition max_retries :: nat where
  "max_retries = 3"

definition retry_delay :: int where
  "retry_delay = 5"

definition max_consecutive_errors :: nat where
  "max_consecutive_errors = 3"

text \<open>
  \<^verbatim>\<open>time.sleep(t)\<close>, with times in whole seconds: a negative time raises ValueError
  before any waiting; a wait may be interrupted.
\<close>

definition py_sleep :: "env \<Rightarrow> int \<Rightarrow> run_state \<Rightarrow> exn option \<times> run_state" where
  "py_sleep E t st =
     (if t < 0 then (Some ValueError, st)
      else (if interrupt E (length (sleep_log st)) then Some KeyboardInterrupt else None,
            st\<lparr>sleep_log := sleep_log st @ [t]\<rparr>))"

text \<open>
  \<^verbatim>\<open>for article in organic\<close>: a list gives its members, a string its characters, a
  dictionary its keys; other objects are not iterable.
\<close>

fun iter_items :: "json \<Rightarrow> exn + json list" where
  "iter_items (JList xs) = Inr xs"
| "iter_items (JStr s) = Inr (map (\<lambda>c. JStr [c]) s)"
| "iter_items (JDict d) = Inr (map (\<lambda>kv. JStr (fst kv)) d)"
| "iter_items _ = Inl TypeError"

text \<open>
  The loop over the items: each normalized item is appended to \<open>self.results\<close> at once,
  so the items before a failing one stay appended.
\<close>

fun collect :: "json list \<Rightarrow> run_state \<Rightarrow> exn option \<times> run_state" where
  "collect [] st = (None, st)"
| "collect (article # rest) st =
     (case normalize_article article of
        Inl e \<Rightarrow> (Some e, st)
      | Inr r \<Rightarrow> collect rest (st\<lparr>self_results := self_results st @ [r]\<rparr>))"

subsection \<open>One attempt at a page\<close>

text \<open>
  What one pass through the body of the \<^verbatim>\<open>while\<close> loop leaves behind: the loop goes on
  with a retry count and the flag \<open>page_success\<close>; or \<open>search_articles\<close> returns; or an
  exception is in flight, with the values the two variables had when it was raised.
\<close>

datatype step =
    Next nat bool run_state
  | Return run_state
  | Raise exn nat bool run_state

definition mk_params :: "string \<Rightarrow> string \<Rightarrow> nat \<Rightarrow> params" where
  "mk_params key query page =
     \<lparr>p_engine = ''google_scholar'', p_q = query, p_api_key = key,
      p_start = int page * 10, p_num = 10\<rparr>"

text \<open>
  The part of the \<^verbatim>\<open>try\<close> block after the classifier has answered \<open>(True, None)\<close>: the
  counter is reset, the items are collected, and after a page that gave items and is
  not the last one the run waits for \<open>delay\<close>.
\<close>

definition process_organic ::
  "env \<Rightarrow> int \<Rightarrow> int \<Rightarrow> nat \<Rightarrow> nat \<Rightarrow> json \<Rightarrow> run_state \<Rightarrow> step" where
  "process_organic E num_pages delay page retry_count results st =
     (let st1 = st\<lparr>consecutive_errors := 0\<rparr> in
      case results of
        JDict d \<Rightarrow>
          (case map_of d ''organic_results'' of
             Some organic \<Rightarrow>
               if truthy organic then
                 (case iter_items organic of
                    Inl e \<Rightarrow> Raise e retry_count False st1
                  | Inr items \<Rightarrow>
                      (case collect items st1 of
                         (Some e, st2) \<Rightarrow> Raise e retry_count False st2
                       | (None, st2) \<Rightarrow>
                           if int page < num_pages - 1 then
                             (case py_sleep E delay st2 of
                                (Some e, st3) \<Rightarrow> Raise e retry_count True st3
                              | (None, st3) \<Rightarrow> Next retry_count True st3)
                           else Next retry_count True st2))
               else Next retry_count False
                      (st1\<lparr>consecutive_errors := consecutive_errors st1 + 1\<rparr>)
           | None \<Rightarrow> Next retry_count False
                      (st1\<lparr>consecutive_errors := consecutive_errors st1 + 1\<rparr>))
      | _ \<Rightarrow> Raise TypeError retry_count False st1)"

text \<open>The \<^verbatim>\<open>try\<close> block of the loop body.\<close>

definition try_body ::
  "env \<Rightarrow> string \<Rightarrow> string \<Rightarrow> int \<Rightarrow> int \<Rightarrow> nat \<Rightarrow> nat \<Rightarrow> run_state \<Rightarrow> step" where
  "try_body E key query num_pages delay page retry_count st =
     (let p = mk_params key query page;
          st1 = st\<lparr>fetch_log := fetch_log st @ [p]\<rparr> in
      case get_dict E (length (fetch_log st)) p of
        Failure e \<Rightarrow> Raise e retry_count False st1
      | Response results \<Rightarrow>
          (case handle_api_error results (page + 1) of
             Inl e \<Rightarrow> Raise e retry_count False st1
           | Inr (continue_scraping, error_type) \<Rightarrow>
               if \<not> continue_scraping then Return st1
               else if truthy_type error_type then
                 (let st2 = st1\<lparr>consecutive_errors := consecutive_errors st1 + 1\<rparr> in
                  if consecutive_errors st2 \<ge> max_consecutive_errors then Return st2
                  else
                    (let rc = retry_count + 1 in
                     if rc < max_retries then
                       (case py_sleep E (retry_delay * int rc) st2 of
                          (Some e, st3) \<Rightarrow> Raise e rc False st3
                        | (None, st3) \<Rightarrow> Next rc False st3)
                     else Next rc False st2))
               else process_organic E num_pages delay page retry_count results st1))"

text \<open>
  The three handlers. Each counts a retry and waits if retries remain; the wait of the
  ConnectionError handler grows with the retry count. An exception that is not an
  \<open>Exception\<close>, or one raised inside a handler, leaves \<open>search_articles\<close>.
\<close>

definition handler_wait :: "env \<Rightarrow> int \<Rightarrow> nat \<Rightarrow> bool \<Rightarrow> run_state \<Rightarrow> step" where
  "handler_wait E t rc page_success st =
     (if rc < max_retries then
        (case py_sleep E t st of
           (Some e, st') \<Rightarrow> Raise e rc page_success st'
         | (None, st') \<Rightarrow> Next rc page_success st')
      else Next rc page_success st)"

definition attempt ::
  "env \<Rightarrow> string \<Rightarrow> string \<Rightarrow> int \<Rightarrow> int \<Rightarrow> nat \<Rightarrow> nat \<Rightarrow> run_state \<Rightarrow> step" where
  "attempt E key query num_pages delay page retry_count st =
     (case try_body E key query num_pages delay page retry_count st of
        Raise e rc page_success st' \<Rightarrow>
          if e = KeyError then handler_wait E retry_delay (rc + 1) page_success st'
          else if e = ConnectionError
          then handler_wait E (retry_delay * int (rc + 1)) (rc + 1) page_success st'
          else if is_Exception e then handler_wait E retry_delay (rc + 1) page_success st'
          else Raise e rc page_success st'
      | other \<Rightarrow> other)"

subsection \<open>The two loops\<close>

text \<open>
  The \<^verbatim>\<open>while\<close> loop of one page. Nothing in the code bounds the number of passes, so the
  model counts them down from \<open>fuel\<close>: \<open>PageOutOfFuel\<close> says that the loop was still
  running after \<open>fuel\<close> passes.
\<close>

datatype page_result =
    PageDone bool run_state
  | PageReturn run_state
  | PageRaise exn run_state
  | PageOutOfFuel run_state

fun while_page ::
  "nat \<Rightarrow> env \<Rightarrow> string \<Rightarrow> string \<Rightarrow> int \<Rightarrow> int \<Rightarrow> nat \<Rightarrow> nat \<Rightarrow> bool \<Rightarrow> run_state
     \<Rightarrow> page_result" where
  "while_page fuel E key query num_pages delay page retry_count page_success st =
     (if retry_count < max_retries \<and> \<not> page_success then
        (case fuel of
           0 \<Rightarrow> PageOutOfFuel st
         | Suc fuel' \<Rightarrow>
             (case attempt E key query num_pages delay page retry_count st of
                Next rc ps st' \<Rightarrow> while_page fuel' E key query num_pages delay page rc ps st'
              | Return st' \<Rightarrow> PageReturn st'
              | Raise e rc ps st' \<Rightarrow> PageRaise e st'))
      else PageDone page_success st)"

declare while_page.simps [simp del]

text \<open>
  The \<^verbatim>\<open>for\<close> loop over the pages: it runs to its end, or is left by one of the two
  \<^verbatim>\<open>return\<close> statements inside it or by an exception. When a page's \<^verbatim>\<open>while\<close> loop ends
  without success, the counter of consecutive errors is increased.
\<close>

datatype pages_result =
    PagesDone run_state
  | PagesReturn run_state
  | PagesRaise exn run_state
  | PagesOutOfFuel run_state

fun for_pages ::
  "nat \<Rightarrow> env \<Rightarrow> string \<Rightarrow> string \<Rightarrow> int \<Rightarrow> int \<Rightarrow> nat list \<Rightarrow> run_state \<Rightarrow> pages_result" where
  "for_pages fuel E key query num_pages delay [] st = PagesDone st"
| "for_pages fuel E key query num_pages delay (page # rest) st =
     (case while_page fuel E key query num_pages delay page 0 False st of
        PageDone page_success st' \<Rightarrow>
          for_pages fuel E key query num_pages delay rest
            (if \<not> page_success
             then st'\<lparr>consecutive_errors := consecutive_errors st' + 1\<rparr> else st')
      | PageReturn st' \<Rightarrow> PagesReturn st'
      | PageRaise e st' \<Rightarrow> PagesRaise e st'
      | PageOutOfFuel st' \<Rightarrow> PagesOutOfFuel st')"

definition initial_state :: run_state where
  "initial_state = \<lparr>self_results = [], consecutive_errors = 0, fetch_log = [], sleep_log = []\<rparr>"

text \<open>
  \<open>search_articles\<close>: \<open>key\<close> is \<open>self.api_key\<close>, and \<^verbatim>\<open>range(num_pages)\<close> is empty for a
  number below one. Every \<^verbatim>\<open>return\<close> hands out \<open>self.results\<close> as a data frame, the
  returns inside the loop as well as the one after it. An exception that leaves the
  function hands out nothing; \<open>self.results\<close> stays in the scraper object.
\<close>

datatype search_result =
    Returned "article_record list" run_state
  | Raised exn run_state
  | OutOfFuel run_state

definition search_articles ::
  "nat \<Rightarrow> env \<Rightarrow> string \<Rightarrow> string \<Rightarrow> int \<Rightarrow> int \<Rightarrow> search_result" where
  "search_articles fuel E key query num_pages delay =
     (case for_pages fuel E key (strip query) num_pages delay [0..<nat num_pages] initial_state of
        PagesDone st \<Rightarrow> Returned (self_results st) st
      | PagesReturn st \<Rightarrow> Returned (self_results st) st
      | PagesRaise e st \<Rightarrow> Raised e st
      | PagesOutOfFuel st \<Rightarrow> OutOfFuel st)"

fun final_state :: "search_result \<Rightarrow> run_state" where
  "final_state (Returned rs st) = st"
| "final_state (Raised e st) = st"
| "final_state (OutOfFuel st) = st"

section \<open>Notions used in the statements\<close>

text \<open>
  The name an entry of the authors list contributes, in the words of the
  specification: the name of a record that has one, \<open>Unknown\<close> for a record without a
  name, the string form of anything that is not a record. An entry is usable when it
  is not a record or its name, if any, is a string.
\<close>

fun display_name :: "json \<Rightarrow> string" where
  "display_name (JDict a) = (case map_of a ''name'' of Some (JStr n) \<Rightarrow> n | _ \<Rightarrow> ''Unknown'')"
| "display_name a = py_str a"

fun usable_entry :: "json \<Rightarrow> bool" where
  "usable_entry (JDict a) =
     (case map_of a ''name'' of None \<Rightarrow> True | Some (JStr n) \<Rightarrow> True | Some _ \<Rightarrow> False)"
| "usable_entry a = True"

text \<open>
  A response that carries no items: it is a dictionary without an
  \<open>organic_results\<close> entry, or with one that is false in Python's sense (an empty
  list, for one).
\<close>

definition no_items :: "json \<Rightarrow> bool" where
  "no_items r =
     (case r of
        JDict d \<Rightarrow> (case map_of d ''organic_results'' of None \<Rightarrow> True | Some v \<Rightarrow> \<not> truthy v)
      | _ \<Rightarrow> False)"

text \<open>The records of the items that normalize.\<close>

definition normalized :: "json list \<Rightarrow> article_record list" where
  "normalized items =
     concat (map (\<lambda>a. case normalize_article a of Inl e \<Rightarrow> [] | Inr r \<Rightarrow> [r]) items)"

definition normalizes :: "json \<Rightarrow> bool" where
  "normalizes a = (case normalize_article a of Inl e \<Rightarrow> False | Inr r \<Rightarrow> True)"

text \<open>The state that a pass through the loop body leaves behind.\<close>

fun step_state :: "step \<Rightarrow> run_state" where
  "step_state (Next rc ps st) = st"
| "step_state (Return st) = st"
| "step_state (Raise e rc ps st) = st"

text \<open>
  No wait made so far was interrupted; and: the last wait was interrupted and none
  before it.
\<close>

definition uninterrupted :: "env \<Rightarrow> run_state \<Rightarrow> bool" where
  "uninterrupted E st = (\<forall>k < length (sleep_log st). \<not> interrupt E k)"

definition interrupted_last :: "env \<Rightarrow> run_state \<Rightarrow> bool" where
  "interrupted_last E st =
     (sleep_log st \<noteq> [] \<and> interrupt E (length (sleep_log st) - 1) \<and>
      (\<forall>k < length (sleep_log st) - 1. \<not> interrupt E k))"

text \<open>
  What holds of the outcome of a piece of the run that started with no interrupted
  wait: still no wait was interrupted, unless the outcome is a KeyboardInterrupt in
  flight, raised by the last wait.
\<close>

definition raise_fine :: "env \<Rightarrow> exn \<Rightarrow> run_state \<Rightarrow> bool" where
  "raise_fine E e st = (uninterrupted E st \<or> (e = KeyboardInterrupt \<and> interrupted_last E st))"

fun step_fine :: "env \<Rightarrow> step \<Rightarrow> bool" where
  "step_fine E (Next rc ps st) = uninterrupted E st"
| "step_fine E (Return st) = uninterrupted E st"
| "step_fine E (Raise e rc ps st) = raise_fine E e st"

fun page_fine :: "env \<Rightarrow> page_result \<Rightarrow> bool" where
  "page_fine E (PageDone ps st) = uninterrupted E st"
| "page_fine E (PageReturn st) = uninterrupted E st"
| "page_fine E (PageRaise e st) = raise_fine E e st"
| "page_fine E (PageOutOfFuel st) = uninterrupted E st"

fun pages_fine :: "env \<Rightarrow> pages_result \<Rightarrow> bool" where
  "pages_fine E (PagesDone st) = uninterrupted E st"
| "pages_fine E (PagesReturn st) = uninterrupted E st"
| "pages_fine E (PagesRaise e st) = raise_fine E e st"
| "pages_fine E (PagesOutOfFuel st) = uninterrupted E st"

text \<open>
  The items of an answer, and an answer that is a page with items: the classifier
  finds nothing wrong, \<open>organic_results\<close> is a list that is not empty, and every item
  normalizes.
\<close>

definition page_items :: "fetch_outcome \<Rightarrow> json list" where
  "page_items a =
     (case a of
        Response (JDict d) \<Rightarrow>
          (case map_of d ''organic_results'' of Some (JList items) \<Rightarrow> items | _ \<Rightarrow> [])
      | _ \<Rightarrow> [])"

definition good_page :: "fetch_outcome \<Rightarrow> bool" where
  "good_page a =
     (case a of
        Response r \<Rightarrow>
          handle_api_error r 1 = Inr (True, None) \<and> is_dict r \<and>
          (case r of JDict d \<Rightarrow>
             (case map_of d ''organic_results'' of Some (JList items) \<Rightarrow> True | _ \<Rightarrow> False)
           | _ \<Rightarrow> False) \<and>
          page_items a \<noteq> [] \<and> list_all normalizes (page_items a)
      | Failure e \<Rightarrow> False)"

text \<open>
  An answer that is a response without items, the one case that the loop of a page
  does not count as a retry; and the state in which the loop of a page ends.
\<close>

definition soft_failure :: "fetch_outcome \<Rightarrow> bool" where
  "soft_failure a =
     (case a of
        Response r \<Rightarrow> handle_api_error r 1 = Inr (True, None) \<and> no_items r
      | Failure e \<Rightarrow> False)"

fun page_state :: "page_result \<Rightarrow> run_state" where
  "page_state (PageDone ps st) = st"
| "page_state (PageReturn st) = st"
| "page_state (PageRaise e st) = st"
| "page_state (PageOutOfFuel st) = st"

text \<open>
  Where the loop of a page stands after \<open>j\<close> passes through its body that all went on
  to another pass: the retry count, the success flag and the state.
\<close>

fun passes ::
  "nat \<Rightarrow> env \<Rightarrow> string \<Rightarrow> string \<Rightarrow> int \<Rightarrow> int \<Rightarrow> nat \<Rightarrow> nat \<Rightarrow> bool \<Rightarrow> run_state
     \<Rightarrow> (nat \<times> bool \<times> run_state) option" where
  "passes 0 E key query num_pages delay page rc ps st = Some (rc, ps, st)"
| "passes (Suc j) E key query num_pages delay page rc ps st =
     (if rc < max_retries \<and> \<not> ps then
        (case attempt E key query num_pages delay page rc st of
           Next rc' ps' st' \<Rightarrow> passes j E key query num_pages delay page rc' ps' st'
         | _ \<Rightarrow> None)
      else None)"

text \<open>
  A point of a run of \<open>search_articles\<close> at which a request is about to be sent: the
  pages before page \<open>K\<close> have run to their end, leaving the state \<open>s0\<close>; the loop of page
  \<open>K\<close> has made \<open>j\<close> passes and the page is not done, the retry count is \<open>rc\<close> and the
  state is \<open>st\<close>; retries and fuel remain. Every request of a run is sent at such a
  point.
\<close>

definition arrives ::
  "nat \<Rightarrow> env \<Rightarrow> string \<Rightarrow> string \<Rightarrow> int \<Rightarrow> int \<Rightarrow> nat \<Rightarrow> run_state \<Rightarrow> nat \<Rightarrow> nat \<Rightarrow> run_state
     \<Rightarrow> bool" where
  "arrives fuel E key query num_pages delay K s0 j rc st =
     (int K < num_pages \<and> rc < max_retries \<and> j < fuel \<and>
      for_pages fuel E key (strip query) num_pages delay [0..<K] initial_state = PagesDone s0 \<and>
      passes j E key (strip query) num_pages delay K 0 False s0 = Some (rc, False, st))"

section \<open>Properties of the classifier and the normalizer\<close>

lemma handle_api_error_dict: "handle_api_error r n = Inr x \<Longrightarrow> is_dict r"
  by (cases r) auto

text \<open>
  The classifier stops the run (\<open>continue_scraping\<close> is false) exactly for the four tags
  \<open>rate_limit\<close>, \<open>access_denied\<close>, \<open>no_results\<close> and \<open>empty_results\<close>.
\<close>

lemma stop_tags:
  "handle_api_error r n = Inr (c, t) \<Longrightarrow>
     c = (t \<notin> {Some ''rate_limit'', Some ''access_denied'', Some ''no_results'',
               Some ''empty_results''})"
  by (cases r) (auto simp: bnd_def split: option.splits json.splits if_splits sum.splits)

lemma error_type_cases:
  "handle_api_error r n = Inr (c, t) \<Longrightarrow>
     t \<in> {None, Some ''rate_limit'', Some ''access_denied'', Some ''captcha'', Some ''no_results'',
          Some ''generic_error'', Some ''processing_error'', Some ''empty_results''}"
  by (cases r) (auto simp: bnd_def split: option.splits json.splits if_splits sum.splits)

lemma walk_raises: "walk v ks = Inl e \<Longrightarrow> e = AttributeError"
proof (induction ks arbitrary: v)
  case Nil
  then show ?case by simp
next
  case (Cons k ks)
  then show ?case by (cases v) (auto simp: bnd_def)
qed

text \<open>\<open>safe_get_field\<close> itself never raises, whatever it is given.\<close>

lemma safe_get_field_total: "\<exists>v. safe_get_field data ks dflt = Inr v"
proof (cases ks)
  case (Single k)
  then show ?thesis by (cases data) (simp_all add: safe_get_field_def)
next
  case (Path path)
  show ?thesis
  proof (cases "walk data path")
    case (Inl e)
    then have "e = AttributeError" by (rule walk_raises)
    with Inl Path show ?thesis by (simp add: safe_get_field_def bnd_def)
  next
    case (Inr v)
    with Path show ?thesis by (simp add: safe_get_field_def bnd_def)
  qed
qed

text \<open>
  The normalization as a whole can raise: the two \<^verbatim>\<open>.get\<close> calls on \<open>publication_info\<close>
  and \<open>inline_links\<close> and the one on the item itself are not guarded, and \<open>join\<close> wants
  strings. Inside \<open>search_articles\<close> the exception is caught by the page's handler.
\<close>

lemma normalize_article_raises:
  "normalize_article (JDict [(''inline_links'', JNull)]) = Inl AttributeError"
  "normalize_article (JStr ''x'') = Inl AttributeError"
  "normalize_article (JDict [(''publication_info'',
      JDict [(''authors'', JList [JDict [(''name'', JNull)]])])]) = Inl TypeError"
  by (simp_all add: normalize_article_def safe_get_field_def bnd_def extract_authors_def
      join_def)

text \<open>
  What the normalization returns for an item of the expected outer shape: a dictionary
  whose \<open>publication_info\<close> and \<open>inline_links\<close> are dictionaries or absent.
\<close>

lemma normalize_article_shape:
  assumes pi: "dict_get (JDict d) ''publication_info'' (JDict []) = Inr (JDict pd)"
      and il: "dict_get (JDict d) ''inline_links'' (JDict []) = Inr (JDict ld)"
      and au: "extract_authors (case map_of pd ''authors'' of None \<Rightarrow> JList [] | Some v \<Rightarrow> v)
                 = Inr a"
  shows "normalize_article (JDict d) =
     Inr \<lparr>title = (case map_of d ''title'' of None \<Rightarrow> JStr ''Untitled'' | Some v \<Rightarrow> v),
          authors = a,
          publication = (case map_of pd ''summary'' of None \<Rightarrow> JStr ''N/A'' | Some v \<Rightarrow> v),
          year = (case map_of d ''year'' of None \<Rightarrow> JStr ''N/A'' | Some v \<Rightarrow> v),
          cited_by = (case map_of ld ''cited_by'' of
                        None \<Rightarrow> JInt 0
                      | Some (JDict cd) \<Rightarrow>
                          (case map_of cd ''total'' of None \<Rightarrow> JInt 0 | Some v \<Rightarrow> v)
                      | Some _ \<Rightarrow> JInt 0),
          link = (case map_of d ''link'' of None \<Rightarrow> JStr ''No URL available'' | Some v \<Rightarrow> v)\<rparr>"
  using pi il au unfolding normalize_article_def safe_get_field_def
  by (auto simp: bnd_def split: option.splits json.splits)




text \<open>
  C7. The claim: \<open>cited_by\<close> is a non-negative integer, the value under
  inline_links, cited_by, total being used only when it is one. The code checks that
  \<open>cited_by\<close> is a dictionary and nothing about \<open>total\<close>: a negative number or a string
  there is passed on.
\<close>

theorem cited_by_not_validated:
  "normalize_article
     (JDict [(''inline_links'', JDict [(''cited_by'', JDict [(''total'', JInt (- 5))])])]) =
     Inr \<lparr>title = JStr ''Untitled'', authors = ''N/A'', publication = JStr ''N/A'',
          year = JStr ''N/A'', cited_by = JInt (- 5), link = JStr ''No URL available''\<rparr>
   \<and> normalize_article
     (JDict [(''inline_links'', JDict [(''cited_by'', JDict [(''total'', JStr ''many'')])])]) =
     Inr \<lparr>title = JStr ''Untitled'', authors = ''N/A'', publication = JStr ''N/A'',
          year = JStr ''N/A'', cited_by = JStr ''many'', link = JStr ''No URL available''\<rparr>"
  by (simp add: normalize_article_def safe_get_field_def bnd_def extract_authors_def)

text \<open>
  C7, amended. In every record that the normalization returns, \<open>cited_by\<close> is the value
  stored under \<open>total\<close>, unchecked, when \<open>inline_links\<close> has a dictionary \<open>cited_by\<close> with
  the key \<open>total\<close>, and 0 when \<open>inline_links\<close>, \<open>cited_by\<close> or \<open>total\<close> is absent or
  \<open>cited_by\<close> is not a dictionary.
\<close>

theorem cited_by_value:
  assumes "normalize_article article = Inr r"
  shows "\<exists>ld. dict_get article ''inline_links'' (JDict []) = Inr (JDict ld) \<and>
           cited_by r = (case map_of ld ''cited_by'' of
                           None \<Rightarrow> JInt 0
                         | Some (JDict cd) \<Rightarrow>
                             (case map_of cd ''total'' of None \<Rightarrow> JInt 0 | Some v \<Rightarrow> v)
                         | Some _ \<Rightarrow> JInt 0)"
  using assms unfolding normalize_article_def
  by (auto simp: bnd_def split: sum.splits option.splits json.splits if_splits
      elim!: dict_get.elims)

theorem cited_by_value_witness:
  "\<exists>ld. dict_get (JDict [(''inline_links'', JDict [(''cited_by'', JDict [(''total'', JInt 12)])])])
            ''inline_links'' (JDict []) = Inr (JDict ld) \<and>
        JInt 12 = (case map_of ld ''cited_by'' of
                     None \<Rightarrow> JInt 0
                   | Some (JDict cd) \<Rightarrow>
                       (case map_of cd ''total'' of None \<Rightarrow> JInt 0 | Some v \<Rightarrow> v)
                   | Some _ \<Rightarrow> JInt 0)"
proof -
  have "normalize_article
          (JDict [(''inline_links'', JDict [(''cited_by'', JDict [(''total'', JInt 12)])])]) =
        Inr \<lparr>title = JStr ''Untitled'', authors = ''N/A'', publication = JStr ''N/A'',
             year = JStr ''N/A'', cited_by = JInt 12, link = JStr ''No URL available''\<rparr>"
    by (simp add: normalize_article_def safe_get_field_def bnd_def extract_authors_def)
  from cited_by_value [OF this] show ?thesis by simp
qed

lemma str_items_author_entries:
  "list_all usable_entry entries \<Longrightarrow>
     str_items (map author_entry entries) = Inr (map display_name entries)"
proof (induction entries)
  case Nil
  then show ?case by simp
next
  case (Cons e es)
  then have rest: "str_items (map author_entry es) = Inr (map display_name es)" by simp
  from Cons.prems have "usable_entry e" by simp
  then have "author_entry e = JStr (display_name e)"
    by (cases e) (auto split: option.splits json.splits)
  with rest show ?case by (simp add: bnd_def)
qed

text \<open>
  The part of the claim about the authors that the code fulfils. For an item whose
  authors list is not empty and has only usable entries (records with a string name,
  records without a name, and entries that are not records), and whose
  \<open>inline_links\<close> is a dictionary or absent, the authors string is the names of the
  entries in the order of the list, joined by a comma and a blank.
\<close>

lemma authors_joined:
  assumes pub: "map_of d ''publication_info'' = Some (JDict pd)"
      and au: "map_of pd ''authors'' = Some (JList entries)"
      and ne: "entries \<noteq> []"
      and ok: "list_all usable_entry entries"
      and il: "dict_get (JDict d) ''inline_links'' (JDict []) = Inr (JDict ld)"
  shows "\<exists>r. normalize_article (JDict d) = Inr r \<and>
              authors r = intercalate '', '' (map display_name entries)"
proof -
  have "extract_authors (JList entries) = Inr (intercalate '', '' (map display_name entries))"
    using ne str_items_author_entries [OF ok] by (simp add: extract_authors_def join_def bnd_def)
  then have "extract_authors (case map_of pd ''authors'' of None \<Rightarrow> JList [] | Some v \<Rightarrow> v)
               = Inr (intercalate '', '' (map display_name entries))"
    using au by simp
  moreover have "dict_get (JDict d) ''publication_info'' (JDict []) = Inr (JDict pd)"
    using pub by simp
  ultimately show ?thesis
    using il by (simp add: normalize_article_shape)
qed

lemma authors_joined_example:
  "\<exists>r. normalize_article
          (JDict [(''publication_info'',
             JDict [(''authors'', JList [JDict [(''name'', JStr ''Ada'')], JInt 7, JDict []])])])
        = Inr r \<and> authors r = ''Ada, 7, Unknown''"
  using authors_joined
    [of "[(''publication_info'',
             JDict [(''authors'', JList [JDict [(''name'', JStr ''Ada'')], JInt 7, JDict []])])]"
        "[(''authors'', JList [JDict [(''name'', JStr ''Ada'')], JInt 7, JDict []])]"
        "[JDict [(''name'', JStr ''Ada'')], JInt 7, JDict []]" "[]"]
  by (simp add: str_int_def digits_of_nat.simps)

text \<open>
  C8. The claim: for every raw item whose authors collection holds a record with a
  name and an entry that is not a record, the normalization produces the authors
  string that joins the name and the string form of the other entry. For the item
  below that string is computed from the authors list, but no record is produced:
  \<open>inline_links\<close> is null, and \<^verbatim>\<open>inline_links.get('cited_by', {})\<close> raises
  AttributeError. The comment above these lines announces a safe extraction of the
  citation count, and the next line guards \<open>cited_by\<close> by \<^verbatim>\<open>isinstance\<close>; the guard for
  \<open>inline_links\<close> is missing.
\<close>

theorem authors_lost_by_unguarded_inline_links:
  "extract_authors (JList [JDict [(''name'', JStr ''Ada'')], JStr ''Bob'']) = Inr ''Ada, Bob'' \<and>
   normalize_article
     (JDict [(''publication_info'',
               JDict [(''authors'', JList [JDict [(''name'', JStr ''Ada'')], JStr ''Bob''])]),
             (''inline_links'', JNull)]) = Inl AttributeError"
  by (simp add: normalize_article_def safe_get_field_def bnd_def extract_authors_def join_def)

section \<open>Properties of one attempt\<close>

text \<open>The request a page sends asks for ten results from the offset ten times the page.\<close>

lemma mk_params_start [simp]: "p_start (mk_params key query page) = int page * 10"
  by (simp add: mk_params_def)


text \<open>A retryable error that brings the counter to the ceiling: the attempt returns.\<close>

lemma attempt_error_ceiling:
  assumes "get_dict E (length (fetch_log st)) (mk_params key query page) = Response r"
      and "handle_api_error r (page + 1) = Inr (True, t)"
      and "truthy_type t"
      and "max_consecutive_errors \<le> consecutive_errors st + 1"
  shows "attempt E key query num_pages delay page rc st =
           Return (st\<lparr>fetch_log := fetch_log st @ [mk_params key query page],
                      consecutive_errors := consecutive_errors st + 1\<rparr>)"
  using assms by (simp add: attempt_def try_body_def Let_def)

text \<open>
  A retryable error below the ceiling: the error and the retry are counted, and the
  same page is tried again after a wait of \<open>retry_delay\<close> times the retry count, unless
  that was the last retry.
\<close>

lemma attempt_error_retry:
  assumes "get_dict E (length (fetch_log st)) (mk_params key query page) = Response r"
      and "handle_api_error r (page + 1) = Inr (True, t)"
      and "truthy_type t"
      and "consecutive_errors st + 1 < max_consecutive_errors"
  shows "attempt E key query num_pages delay page rc st =
           (if rc + 1 < max_retries then
              (if interrupt E (length (sleep_log st)) then Raise KeyboardInterrupt (rc + 1) False
               else Next (rc + 1) False)
                (st\<lparr>fetch_log := fetch_log st @ [mk_params key query page],
                    consecutive_errors := consecutive_errors st + 1,
                    sleep_log := sleep_log st @ [retry_delay * int (rc + 1)]\<rparr>)
            else Next (rc + 1) False
                   (st\<lparr>fetch_log := fetch_log st @ [mk_params key query page],
                       consecutive_errors := consecutive_errors st + 1\<rparr>))"
  using assms
  by (simp add: attempt_def try_body_def Let_def py_sleep_def retry_delay_def is_Exception_def)

text \<open>
  Such a response leaves the retry count as it was and the page unsuccessful; the
  counter of consecutive errors is 1 afterwards, whatever it was before.
\<close>

lemma attempt_ok_no_items:
  assumes "get_dict E (length (fetch_log st)) (mk_params key query page) = Response r"
      and "handle_api_error r (page + 1) = Inr (True, None)"
      and "no_items r"
  shows "attempt E key query num_pages delay page rc st =
           Next rc False (st\<lparr>fetch_log := fetch_log st @ [mk_params key query page],
                             consecutive_errors := 1\<rparr>)"
  using assms
  by (cases r)
     (auto simp: attempt_def try_body_def process_organic_def no_items_def Let_def
           split: option.splits)

text \<open>The exception handlers: a failing request costs one retry.\<close>

lemma attempt_fetch_fails:
  assumes "get_dict E (length (fetch_log st)) (mk_params key query page) = Failure e"
      and "is_Exception e"
      and "\<not> interrupt E (length (sleep_log st))"
  shows "attempt E key query num_pages delay page rc st =
           (if rc + 1 < max_retries then
              Next (rc + 1) False
                (st\<lparr>fetch_log := fetch_log st @ [mk_params key query page],
                    sleep_log := sleep_log st @
                      [if e = ConnectionError then retry_delay * int (rc + 1) else retry_delay]\<rparr>)
            else Next (rc + 1) False
                   (st\<lparr>fetch_log := fetch_log st @ [mk_params key query page]\<rparr>))"
  using assms
  by (simp add: attempt_def try_body_def Let_def py_sleep_def retry_delay_def handler_wait_def)

lemma length_normalized: "list_all normalizes items \<Longrightarrow> length (normalized items) = length items"
  by (induction items) (auto simp: normalized_def normalizes_def split: sum.splits)

lemma collect_all:
  "list_all normalizes items \<Longrightarrow>
     collect items st = (None, st\<lparr>self_results := self_results st @ normalized items\<rparr>)"
proof (induction items arbitrary: st)
  case Nil
  then show ?case by (simp add: normalized_def)
next
  case (Cons a items)
  then obtain r where r: "normalize_article a = Inr r"
    by (auto simp: normalizes_def split: sum.splits)
  have "normalized (a # items) = r # normalized items"
    using r by (simp add: normalized_def)
  with Cons r show ?case by simp
qed

lemma collect_logs:
  "collect items st = (x, st') \<Longrightarrow>
     fetch_log st' = fetch_log st \<and> sleep_log st' = sleep_log st \<and>
     consecutive_errors st' = consecutive_errors st"
proof (induction items arbitrary: st)
  case Nil
  then show ?case by simp
next
  case (Cons a items)
  show ?case
  proof (cases "normalize_article a")
    case (Inl e)
    with Cons.prems show ?thesis by simp
  next
    case (Inr r)
    with Cons.prems have "collect items (st\<lparr>self_results := self_results st @ [r]\<rparr>) = (x, st')"
      by simp
    from Cons.IH [OF this] show ?thesis by simp
  qed
qed

text \<open>
  A page of items that all normalize: the records are appended in the order of the
  items and the page is done. Before any page but the last the run waits for \<open>delay\<close>;
  a negative \<open>delay\<close> makes \<open>sleep\<close> raise ValueError, which the last handler answers
  by a wait of \<open>retry_delay\<close>.
\<close>

lemma attempt_ok_items:
  assumes "get_dict E (length (fetch_log st)) (mk_params key query page) = Response (JDict d)"
      and "handle_api_error (JDict d) (page + 1) = Inr (True, None)"
      and "map_of d ''organic_results'' = Some (JList items)"
      and "items \<noteq> []"
      and "list_all normalizes items"
      and "\<forall>k. \<not> interrupt E k"
  shows "\<exists>rc' st'. attempt E key query num_pages delay page rc st = Next rc' True st' \<and>
           self_results st' = self_results st @ normalized items \<and>
           fetch_log st' = fetch_log st @ [mk_params key query page] \<and>
           consecutive_errors st' = 0"
  using assms
  by (simp add: attempt_def try_body_def process_organic_def Let_def collect_all py_sleep_def
      handler_wait_def is_Exception_def retry_delay_def del: handle_api_error.simps)

section \<open>Properties of the loops\<close>

lemma while_page_exit:
  "\<not> (rc < max_retries \<and> \<not> ps) \<Longrightarrow>
     while_page fuel E key query num_pages delay page rc ps st = PageDone ps st"
  by (subst while_page.simps) auto

lemma while_page_step:
  "rc < max_retries \<Longrightarrow>
     while_page (Suc fuel) E key query num_pages delay page rc False st =
       (case attempt E key query num_pages delay page rc st of
          Next rc' ps st' \<Rightarrow> while_page fuel E key query num_pages delay page rc' ps st'
        | Return st' \<Rightarrow> PageReturn st'
        | Raise e rc' ps st' \<Rightarrow> PageRaise e st')"
  by (subst while_page.simps) simp

lemma while_page_no_fuel:
  "rc < max_retries \<Longrightarrow>
     while_page 0 E key query num_pages delay page rc False st = PageOutOfFuel st"
  by (subst while_page.simps) simp

text \<open>The pages are handled one after the other; a return or an exception ends the loop.\<close>

lemma for_pages_append:
  "for_pages fuel E key query num_pages delay (ps @ qs) st =
     (case for_pages fuel E key query num_pages delay ps st of
        PagesDone st' \<Rightarrow> for_pages fuel E key query num_pages delay qs st'
      | other \<Rightarrow> other)"
proof (induction ps arbitrary: st)
  case Nil
  show ?case by simp
next
  case (Cons p ps)
  show ?case
    by (cases "while_page fuel E key query num_pages delay p 0 False st") (simp_all add: Cons)
qed

text \<open>
  While every answer is a response without items, the \<^verbatim>\<open>while\<close> loop of a page never
  ends: each pass sends the same request again and changes neither the retry count
  nor the success flag.
\<close>

lemma while_page_no_items:
  assumes always: "\<forall>k p. \<exists>r. get_dict E k p = Response r \<and>
                     handle_api_error r (page + 1) = Inr (True, None) \<and> no_items r"
      and rc: "rc < max_retries"
  shows "while_page fuel E key query num_pages delay page rc False st =
           PageOutOfFuel
             (st\<lparr>fetch_log := fetch_log st @ replicate fuel (mk_params key query page),
                 consecutive_errors := (if fuel = 0 then consecutive_errors st else 1)\<rparr>)"
proof (induction fuel arbitrary: st)
  case 0
  show ?case using rc by (simp add: while_page_no_fuel)
next
  case (Suc fuel)
  from always obtain r where
    "get_dict E (length (fetch_log st)) (mk_params key query page) = Response r"
    "handle_api_error r (page + 1) = Inr (True, None)" "no_items r"
    by blast
  then have "attempt E key query num_pages delay page rc st =
               Next rc False (st\<lparr>fetch_log := fetch_log st @ [mk_params key query page],
                                 consecutive_errors := 1\<rparr>)"
    by (rule attempt_ok_no_items)
  then show ?case
    using rc by (simp add: while_page_step Suc replicate_app_Cons_same)
qed

section \<open>What an attempt keeps and where it returns\<close>

lemma py_sleep_keeps:
  "py_sleep E t st = (x, st') \<Longrightarrow>
     consecutive_errors st' = consecutive_errors st \<and> self_results st' = self_results st \<and>
     fetch_log st' = fetch_log st"
  by (auto simp: py_sleep_def split: if_splits)

lemma handler_wait_keeps:
  "consecutive_errors (step_state (handler_wait E t rc ps st)) = consecutive_errors st \<and>
   self_results (step_state (handler_wait E t rc ps st)) = self_results st \<and>
   fetch_log (step_state (handler_wait E t rc ps st)) = fetch_log st"
  by (auto simp: handler_wait_def split: prod.splits option.splits dest: py_sleep_keeps)

lemma handler_wait_no_return: "handler_wait E t rc ps st \<noteq> Return s"
  by (auto simp: handler_wait_def split: prod.splits option.splits)

text \<open>The handlers change neither the counter nor the records nor the requests.\<close>

lemma attempt_keeps:
  "consecutive_errors (step_state (attempt E key query num_pages delay page rc st)) =
     consecutive_errors (step_state (try_body E key query num_pages delay page rc st)) \<and>
   self_results (step_state (attempt E key query num_pages delay page rc st)) =
     self_results (step_state (try_body E key query num_pages delay page rc st)) \<and>
   fetch_log (step_state (attempt E key query num_pages delay page rc st)) =
     fetch_log (step_state (try_body E key query num_pages delay page rc st))"
  by (cases "try_body E key query num_pages delay page rc st")
     (simp_all add: attempt_def handler_wait_keeps)

lemma attempt_return:
  "attempt E key query num_pages delay page rc st = Return s \<Longrightarrow>
     try_body E key query num_pages delay page rc st = Return s"
  by (cases "try_body E key query num_pages delay page rc st")
     (auto simp: attempt_def handler_wait_no_return split: if_splits)

lemma process_organic_no_return:
  "process_organic E num_pages delay page rc r st \<noteq> Return s"
  by (auto simp: process_organic_def Let_def
      split: json.splits option.splits sum.splits prod.splits)

text \<open>
  After the part of the body that follows an OK classification the counter is 1 when
  the response has no items and 0 when it has some, whatever it was before.
\<close>

lemma process_organic_counter:
  "is_dict r \<Longrightarrow>
     consecutive_errors (step_state (process_organic E num_pages delay page rc r st)) =
       (if no_items r then 1 else 0)"
  by (cases r)
     (auto simp: process_organic_def no_items_def Let_def
           split: option.splits sum.splits prod.splits
           dest!: collect_logs py_sleep_keeps)

lemma try_body_ok:
  assumes "get_dict E (length (fetch_log st)) (mk_params key query page) = Response r"
      and "handle_api_error r (page + 1) = Inr (True, None)"
  shows "try_body E key query num_pages delay page rc st =
           process_organic E num_pages delay page rc r
             (st\<lparr>fetch_log := fetch_log st @ [mk_params key query page]\<rparr>)"
  using assms by (simp add: try_body_def Let_def)

text \<open>Where the two \<^verbatim>\<open>return\<close> statements of the loop body are reached.\<close>

lemma try_body_return:
  assumes "try_body E key query num_pages delay page rc st = Return s"
  shows "\<exists>r c t. get_dict E (length (fetch_log st)) (mk_params key query page) = Response r \<and>
           handle_api_error r (page + 1) = Inr (c, t) \<and>
           (\<not> c \<or> (truthy_type t \<and> max_consecutive_errors \<le> consecutive_errors st + 1))"
proof (cases "get_dict E (length (fetch_log st)) (mk_params key query page)")
  case (Failure e)
  with assms show ?thesis by (simp add: try_body_def Let_def)
next
  case (Response r)
  show ?thesis
  proof (cases "handle_api_error r (page + 1)")
    case (Inl e)
    with assms Response show ?thesis by (simp add: try_body_def Let_def)
  next
    case (Inr ct)
    obtain c t where ct: "ct = (c, t)" by (cases ct)
    show ?thesis
    proof (cases "\<not> c \<or> (truthy_type t \<and> max_consecutive_errors \<le> consecutive_errors st + 1)")
      case True
      with Response Inr ct show ?thesis by auto
    next
      case False
      with assms Response Inr ct show ?thesis
        by (auto simp: try_body_def Let_def process_organic_no_return
            split: if_splits prod.splits option.splits)
    qed
  qed
qed

section \<open>Points of a run\<close>

lemma upt_split_page:
  "int K < num_pages \<Longrightarrow> [0..<nat num_pages] = [0..<K] @ K # [Suc K..<nat num_pages]"
proof -
  assume "int K < num_pages"
  then have "K < nat num_pages" by simp
  then have "[0..<nat num_pages] = [0..<K] @ [K..<nat num_pages]"
    by (metis le_add1 less_imp_le_nat plus_nat.add_0 upt_add_eq_append le_Suc_ex)
  with \<open>K < nat num_pages\<close> show ?thesis by (simp add: upt_conv_Cons)
qed

lemma for_pages_return:
  "while_page fuel E key query num_pages delay page 0 False st = PageReturn st' \<Longrightarrow>
     for_pages fuel E key query num_pages delay (page # rest) st = PagesReturn st'"
  by simp

lemma while_page_passes:
  "passes j E key query num_pages delay page rc ps st = Some (rc', ps', st') \<Longrightarrow>
     while_page (j + fuel) E key query num_pages delay page rc ps st =
       while_page fuel E key query num_pages delay page rc' ps' st'"
proof (induction j arbitrary: rc ps st)
  case 0
  then show ?case by simp
next
  case (Suc j)
  from Suc.prems have go: "rc < max_retries" "ps = False"
    by (auto split: if_splits)
  from Suc.prems go obtain rc1 ps1 st1 where
    a: "attempt E key query num_pages delay page rc st = Next rc1 ps1 st1"
    and p: "passes j E key query num_pages delay page rc1 ps1 st1 = Some (rc', ps', st')"
    by (auto split: step.splits)
  from Suc.IH [OF p] a go show ?case by (simp add: while_page_step)
qed

text \<open>
  What a run does at such a point is decided by the attempt made there: when the
  attempt returns, \<open>search_articles\<close> returns the records of that moment.
\<close>

lemma arrives_return:
  assumes arr: "arrives fuel E key query num_pages delay K s0 j rc st"
      and ret: "attempt E key (strip query) num_pages delay K rc st = Return st'"
  shows "search_articles fuel E key query num_pages delay = Returned (self_results st') st'"
proof -
  from arr have K: "int K < num_pages" and rc: "rc < max_retries" and j: "j < fuel"
    and before: "for_pages fuel E key (strip query) num_pages delay [0..<K] initial_state
                   = PagesDone s0"
    and p: "passes j E key (strip query) num_pages delay K 0 False s0 = Some (rc, False, st)"
    by (simp_all add: arrives_def)
  from j obtain f where f: "fuel = j + Suc f"
    by (metis add_Suc_right less_imp_Suc_add)
  have "while_page fuel E key (strip query) num_pages delay K 0 False s0 =
          while_page (Suc f) E key (strip query) num_pages delay K rc False st"
    unfolding f using p by (rule while_page_passes)
  also have "\<dots> = PageReturn st'"
    using rc ret by (simp add: while_page_step)
  finally have "for_pages fuel E key (strip query) num_pages delay
                  (K # [Suc K..<nat num_pages]) s0 = PagesReturn st'"
    by simp
  then have "for_pages fuel E key (strip query) num_pages delay [0..<nat num_pages] initial_state
               = PagesReturn st'"
    using before by (simp add: upt_split_page [OF K] for_pages_append)
  then show ?thesis by (simp add: search_articles_def)
qed






section \<open>Runs that do not end\<close>

lemma handle_api_error_page: "handle_api_error r n = handle_api_error r m"
  by (cases r) simp_all

lemma upt_first_page: "1 \<le> num_pages \<Longrightarrow> [0..<nat num_pages] = 0 # [1..<nat num_pages]"
  by (simp add: upt_conv_Cons)

text \<open>
  When every answer is a response without items, the run stays in the \<^verbatim>\<open>while\<close> loop of
  the first page: after \<open>fuel\<close> passes it has sent \<open>fuel\<close> requests for page 0 and is not
  done.
\<close>

lemma search_no_items:
  assumes pages: "1 \<le> num_pages"
      and always: "\<forall>k p. \<exists>r. get_dict E k p = Response r \<and>
                     handle_api_error r 1 = Inr (True, None) \<and> no_items r"
  shows "search_articles fuel E key query num_pages delay =
           OutOfFuel
             (initial_state
                \<lparr>fetch_log := replicate fuel (mk_params key (strip query) 0),
                 consecutive_errors := (if fuel = 0 then 0 else 1)\<rparr>)"
proof -
  have always': "\<forall>k p. \<exists>r. get_dict E k p = Response r \<and>
                   handle_api_error r (0 + 1) = Inr (True, None) \<and> no_items r"
    using always by simp
  have "while_page fuel E key (strip query) num_pages delay 0 0 False initial_state =
          PageOutOfFuel
            (initial_state
               \<lparr>fetch_log := fetch_log initial_state @ replicate fuel (mk_params key (strip query) 0),
                consecutive_errors := (if fuel = 0 then consecutive_errors initial_state else 1)\<rparr>)"
    by (rule while_page_no_items [OF always']) (simp add: max_retries_def)
  then show ?thesis
    using pages by (simp add: search_articles_def upt_first_page initial_state_def)
qed

text \<open>
  C1. The claim: search terminates for every behaviour of the service, also for one
  that always answers with an OK-classified response without items, each page being
  tried at most three times. The branch for a page without items counts a consecutive
  error but not a retry, so against such a service the loop of the first page never
  ends: whatever the number \<open>fuel\<close> of passes, the run has then sent \<open>fuel\<close> requests,
  all for page 0, and is still in the loop.
\<close>

theorem search_never_ends_without_items:
  assumes "1 \<le> num_pages"
      and "\<forall>k p. \<exists>r. get_dict E k p = Response r \<and>
             handle_api_error r 1 = Inr (True, None) \<and> no_items r"
  shows "search_articles fuel E key query num_pages delay =
           OutOfFuel
             (initial_state
                \<lparr>fetch_log := replicate fuel (mk_params key (strip query) 0),
                 consecutive_errors := (if fuel = 0 then 0 else 1)\<rparr>)"
  using assms by (rule search_no_items)

theorem search_never_ends_without_items_witness:
  "search_articles 4
     \<lparr>get_dict = (\<lambda>k p. Response (JDict [(''organic_results'', JList [])])),
      interrupt = (\<lambda>k. False)\<rparr> ''key'' ''llm'' 1 1 =
   OutOfFuel
     \<lparr>self_results = [], consecutive_errors = 1,
      fetch_log = replicate 4 (mk_params ''key'' ''llm'' 0), sleep_log = []\<rparr>"
  using search_never_ends_without_items
    [of 1 "\<lparr>get_dict = (\<lambda>k p. Response (JDict [(''organic_results'', JList [])])),
            interrupt = (\<lambda>k. False)\<rparr>" 4 "''key''" "''llm''" 1]
  by (simp add: no_items_def bnd_def lower_def initial_state_def strip_def is_space_def)

text \<open>
  C3. The claim: against a service that always answers with an OK-classified response
  of N items, a search over P pages returns exactly P times N records. For N = 0 the
  search should return no record; the code does not return at all, for the reason
  given for C1. Here P is 3.
\<close>

theorem pages_of_zero_items_never_returned:
  "search_articles fuel
     \<lparr>get_dict = (\<lambda>k p. Response (JDict [(''search_metadata'', JDict [(''status'', JStr ''Success'')]),
                                         (''organic_results'', JList [])])),
      interrupt = (\<lambda>k. False)\<rparr> key query 3 delay =
   OutOfFuel
     \<lparr>self_results = [], consecutive_errors = (if fuel = 0 then 0 else 1),
      fetch_log = replicate fuel (mk_params key (strip query) 0), sleep_log = []\<rparr>"
proof -
  have "search_articles fuel
     \<lparr>get_dict = (\<lambda>k p. Response (JDict [(''search_metadata'', JDict [(''status'', JStr ''Success'')]),
                                         (''organic_results'', JList [])])),
      interrupt = (\<lambda>k. False)\<rparr> key query 3 delay =
     OutOfFuel
       (initial_state
          \<lparr>fetch_log := replicate fuel (mk_params key (strip query) 0),
           consecutive_errors := (if fuel = 0 then 0 else 1)\<rparr>)"
    by (rule search_no_items) (simp_all add: no_items_def bnd_def lower_def)
  then show ?thesis by (simp add: initial_state_def)
qed

section \<open>Stopping the run\<close>




section \<open>The counter of consecutive errors\<close>

text \<open>
  C4. Take any point of a run at which a request for page K is sent, and let the
  response be classified. If the tag is one of the retryable errors (generic,
  processing error, captcha), the attempt counts one more consecutive error and adds
  no record; if the counter thereby reaches the ceiling, \<open>search_articles\<close> returns at
  once the records accumulated so far, with no wait and no further request, and
  below the ceiling the attempt does not return. If the response is classified OK, the
  counter is reset: after the attempt it is 0 for a page with items, and 1 for a page
  without items, whatever it was before.
\<close>

theorem retryable_error_counted_against_ceiling:
  assumes arr: "arrives fuel E key query num_pages delay K s0 j rc st"
      and resp: "get_dict E (length (fetch_log st)) (mk_params key (strip query) K) = Response r"
      and cls: "handle_api_error r (K + 1) = Inr (c, t)"
  shows "(t \<in> {Some ''generic_error'', Some ''processing_error'', Some ''captcha''} \<longrightarrow>
            consecutive_errors (step_state (attempt E key (strip query) num_pages delay K rc st))
              = consecutive_errors st + 1 \<and>
            self_results (step_state (attempt E key (strip query) num_pages delay K rc st))
              = self_results st \<and>
            (max_consecutive_errors \<le> consecutive_errors st + 1 \<longrightarrow>
               search_articles fuel E key query num_pages delay =
                 Returned (self_results st)
                   (st\<lparr>fetch_log := fetch_log st @ [mk_params key (strip query) K],
                       consecutive_errors := consecutive_errors st + 1\<rparr>)) \<and>
            (consecutive_errors st + 1 < max_consecutive_errors \<longrightarrow>
               (\<forall>s. attempt E key (strip query) num_pages delay K rc st \<noteq> Return s)))
       \<and> (t = None \<longrightarrow>
            consecutive_errors (step_state (attempt E key (strip query) num_pages delay K rc st))
              = (if no_items r then 1 else 0))"
proof (intro conjI impI)
  assume t: "t \<in> {Some ''generic_error'', Some ''processing_error'', Some ''captcha''}"
  then have tt: "truthy_type t" by auto
  from stop_tags [OF cls] t have "c" by auto
  with cls have cls': "handle_api_error r (K + 1) = Inr (True, t)" by simp
  show "consecutive_errors (step_state (attempt E key (strip query) num_pages delay K rc st))
          = consecutive_errors st + 1"
    using attempt_error_ceiling [OF resp cls' tt] attempt_error_retry [OF resp cls' tt]
    by (cases "max_consecutive_errors \<le> consecutive_errors st + 1") auto
  show "self_results (step_state (attempt E key (strip query) num_pages delay K rc st))
          = self_results st"
    using attempt_error_ceiling [OF resp cls' tt] attempt_error_retry [OF resp cls' tt]
    by (cases "max_consecutive_errors \<le> consecutive_errors st + 1") auto
  show "search_articles fuel E key query num_pages delay =
          Returned (self_results st)
            (st\<lparr>fetch_log := fetch_log st @ [mk_params key (strip query) K],
                consecutive_errors := consecutive_errors st + 1\<rparr>)"
    if "max_consecutive_errors \<le> consecutive_errors st + 1"
    using arrives_return [OF arr attempt_error_ceiling [OF resp cls' tt that]] by simp
  show "\<forall>s. attempt E key (strip query) num_pages delay K rc st \<noteq> Return s"
    if "consecutive_errors st + 1 < max_consecutive_errors"
    using attempt_error_retry [OF resp cls' tt that] by auto
next
  assume t: "t = None"
  from stop_tags [OF cls] t have "c" by auto
  with cls t have cls': "handle_api_error r (K + 1) = Inr (True, None)" by simp
  have "is_dict r" using cls by (rule handle_api_error_dict)
  then show "consecutive_errors (step_state (attempt E key (strip query) num_pages delay K rc st))
          = (if no_items r then 1 else 0)"
    using attempt_keeps [of E key "strip query" num_pages delay K rc st]
    by (simp add: try_body_ok [OF resp cls'] process_organic_counter)
qed

theorem retryable_error_counted_against_ceiling_witness:
  "search_articles 3
     \<lparr>get_dict = (\<lambda>k p. Response (JDict [(''error'', JStr ''Something went wrong'')])),
      interrupt = (\<lambda>k. False)\<rparr> ''key'' ''q'' 4 1 =
   Returned []
     \<lparr>self_results = [], consecutive_errors = 3,
      fetch_log = [mk_params ''key'' ''q'' 0, mk_params ''key'' ''q'' 0, mk_params ''key'' ''q'' 0],
      sleep_log = [5, 10]\<rparr>
   \<and> consecutive_errors (step_state (attempt
     \<lparr>get_dict = (\<lambda>k p. Response (JDict [(''error'', JStr ''Something went wrong'')])),
      interrupt = (\<lambda>k. False)\<rparr> ''key'' ''q'' 4 1 0 0
     \<lparr>self_results = [], consecutive_errors = 0, fetch_log = [], sleep_log = []\<rparr>)) = 1
   \<and> consecutive_errors (step_state (attempt
     \<lparr>get_dict = (\<lambda>k p. if k = 0
          then Response (JDict [(''error'', JStr ''Something went wrong'')])
          else Response (JDict [(''organic_results'', JList [JDict [(''title'', JStr ''T'')]])])),
      interrupt = (\<lambda>k. False)\<rparr> ''key'' ''q'' 4 1 0 1
     \<lparr>self_results = [], consecutive_errors = 1, fetch_log = [mk_params ''key'' ''q'' 0],
      sleep_log = [5]\<rparr>)) = 0"
proof -
  let ?Eg = "\<lparr>get_dict = (\<lambda>k p. Response (JDict [(''error'', JStr ''Something went wrong'')])),
      interrupt = (\<lambda>k. False)\<rparr>"
  let ?Eo = "\<lparr>get_dict = (\<lambda>k p. if k = 0
          then Response (JDict [(''error'', JStr ''Something went wrong'')])
          else Response (JDict [(''organic_results'', JList [JDict [(''title'', JStr ''T'')]])])),
      interrupt = (\<lambda>k. False)\<rparr>"
  let ?s0 = "\<lparr>self_results = [], consecutive_errors = 0, fetch_log = [], sleep_log = []\<rparr>"
  let ?s1 = "\<lparr>self_results = [], consecutive_errors = 1, fetch_log = [mk_params ''key'' ''q'' 0],
              sleep_log = [5]\<rparr>"
  let ?s2 = "\<lparr>self_results = [], consecutive_errors = 2,
              fetch_log = [mk_params ''key'' ''q'' 0, mk_params ''key'' ''q'' 0],
              sleep_log = [5, 10]\<rparr>"
  have q: "strip ''q'' = ''q''"
    by (simp add: strip_def is_space_def)
  have g: "handle_api_error (JDict [(''error'', JStr ''Something went wrong'')]) (0 + 1) =
        Inr (True, Some ''generic_error'')"
    by (simp add: lower_def lower_char_def)
  have o: "handle_api_error
        (JDict [(''organic_results'', JList [JDict [(''title'', JStr ''T'')]])]) (0 + 1) =
        Inr (True, None)"
    by (simp add: bnd_def lower_def)
  have a2: "arrives 3 ?Eg ''key'' ''q'' 4 1 0 ?s0 2 2 ?s2"
    by code_simp
  have a0: "arrives 3 ?Eg ''key'' ''q'' 4 1 0 ?s0 0 0 ?s0"
    by code_simp
  have a1: "arrives 3 ?Eo ''key'' ''q'' 4 1 0 ?s0 1 1 ?s1"
    by code_simp
  have rg2: "get_dict ?Eg (length (fetch_log ?s2)) (mk_params ''key'' (strip ''q'') 0) =
        Response (JDict [(''error'', JStr ''Something went wrong'')])"
    by simp
  have rg0: "get_dict ?Eg (length (fetch_log ?s0)) (mk_params ''key'' (strip ''q'') 0) =
        Response (JDict [(''error'', JStr ''Something went wrong'')])"
    by simp
  have ro: "get_dict ?Eo (length (fetch_log ?s1)) (mk_params ''key'' (strip ''q'') 0) =
        Response (JDict [(''organic_results'', JList [JDict [(''title'', JStr ''T'')]])])"
    by simp
  show ?thesis
    using retryable_error_counted_against_ceiling [OF a2 rg2 g]
      retryable_error_counted_against_ceiling [OF a0 rg0 g]
      retryable_error_counted_against_ceiling [OF a1 ro o]
    by (simp add: q max_consecutive_errors_def no_items_def)
qed

text \<open>
  The property of the specification that belongs to C4: three generic errors in a row
  end a search over four pages after the third request, all three for page 0.
\<close>

lemma three_generic_errors_stop:
  "search_articles 3
     \<lparr>get_dict = (\<lambda>k p. Response (JDict [(''error'', JStr ''Something went wrong'')])),
      interrupt = (\<lambda>k. False)\<rparr> ''key'' ''q'' 4 1 =
   Returned []
     \<lparr>self_results = [], consecutive_errors = 3,
      fetch_log = [mk_params ''key'' ''q'' 0, mk_params ''key'' ''q'' 0, mk_params ''key'' ''q'' 0],
      sleep_log = [5, 10]\<rparr>"
  by code_simp

text \<open>
  C5. The claim: after a CAPTCHA classification the orchestrator goes on to the next
  page and does not retry the same one. The comment at the classifier's \<^verbatim>\<open>return True,
  "captcha"\<close> says so too (\<^verbatim>\<open># Continue with next page\<close>), but \<open>search_articles\<close> treats the
  tag like every other retryable error: the \<^verbatim>\<open>continue\<close> belongs to the \<^verbatim>\<open>while\<close> loop and
  the same page is requested again. Here the first answer is a CAPTCHA error and
  all later answers are pages with one item; the offsets of the requests of a search
  over two pages are 0, 0 and 10.
\<close>

theorem captcha_retries_same_page:
  "map p_start (fetch_log (final_state (search_articles 2
     \<lparr>get_dict = (\<lambda>k p. if k = 0
          then Response (JDict [(''error'', JStr ''CAPTCHA detected'')])
          else Response (JDict [(''organic_results'', JList [JDict [(''title'', JStr ''T'')]])])),
      interrupt = (\<lambda>k. False)\<rparr> ''key'' ''q'' 2 0))) = [0, 0, 10]"
  by code_simp

section \<open>Interrupted waits\<close>

lemma py_sleep_fine:
  assumes "uninterrupted E st" and "py_sleep E t st = (x, st')"
  shows "(x = None \<and> uninterrupted E st') \<or> (x = Some ValueError \<and> st' = st) \<or>
         (x = Some KeyboardInterrupt \<and> interrupted_last E st')"
  using assms
  by (auto simp: py_sleep_def uninterrupted_def interrupted_last_def less_Suc_eq
      split: if_splits)

lemma uninterrupted_logs:
  "sleep_log st' = sleep_log st \<Longrightarrow> uninterrupted E st' = uninterrupted E st"
  by (simp add: uninterrupted_def)

lemma handler_wait_fine:
  "uninterrupted E st \<Longrightarrow> t \<ge> 0 \<Longrightarrow> step_fine E (handler_wait E t rc ps st)"
  by (auto simp: handler_wait_def raise_fine_def py_sleep_def uninterrupted_def
      interrupted_last_def less_Suc_eq split: prod.splits option.splits if_splits)

lemma collect_fine:
  "collect items st = (x, st') \<Longrightarrow> uninterrupted E st \<Longrightarrow> uninterrupted E st'"
  using collect_logs [of items st x st'] by (simp add: uninterrupted_def)

lemma sleep_step_fine:
  assumes "uninterrupted E st"
  shows "step_fine E (case py_sleep E t st of
                        (Some e, st') \<Rightarrow> Raise e rc ps st'
                      | (None, st') \<Rightarrow> Next rc ps st')"
proof (cases "py_sleep E t st")
  case (Pair x st')
  from py_sleep_fine [OF assms Pair] Pair assms show ?thesis
    by (auto simp: raise_fine_def)
qed

lemma process_organic_fine:
  assumes "uninterrupted E st"
  shows "step_fine E (process_organic E num_pages delay page rc r st)"
proof -
  let ?st1 = "st\<lparr>consecutive_errors := 0\<rparr>"
  have st1: "uninterrupted E ?st1"
    and st1': "uninterrupted E (?st1\<lparr>consecutive_errors := consecutive_errors ?st1 + 1\<rparr>)"
    using assms by (simp_all add: uninterrupted_def)
  show ?thesis
  proof (cases r)
    case (JDict d)
    show ?thesis
    proof (cases "map_of d ''organic_results''")
      case None
      with JDict st1' show ?thesis by (simp add: process_organic_def)
    next
      case (Some organic)
      show ?thesis
      proof (cases "truthy organic")
        case False
        with JDict Some st1' show ?thesis by (simp add: process_organic_def)
      next
        case True
        show ?thesis
        proof (cases "iter_items organic")
          case (Inl e)
          with JDict Some True st1 show ?thesis
            by (simp add: process_organic_def raise_fine_def)
        next
          case (Inr items)
          obtain x st2 where c: "collect items ?st1 = (x, st2)" by (cases "collect items ?st1")
          from collect_fine [OF c st1] have st2: "uninterrupted E st2" .
          show ?thesis
          proof (cases x)
            case (Some e)
            with JDict \<open>map_of d ''organic_results'' = Some organic\<close> True Inr c st2
            show ?thesis by (simp add: process_organic_def raise_fine_def)
          next
            case None
            with JDict \<open>map_of d ''organic_results'' = Some organic\<close> True Inr c st2
              sleep_step_fine [OF st2, where t = delay and rc = rc and ps = True]
            show ?thesis by (simp add: process_organic_def)
          qed
        qed
      qed
    qed
  qed (use st1 in \<open>simp_all add: process_organic_def raise_fine_def\<close>)
qed

lemma try_body_fine:
  assumes "uninterrupted E st"
  shows "step_fine E (try_body E key query num_pages delay page rc st)"
proof -
  let ?st1 = "st\<lparr>fetch_log := fetch_log st @ [mk_params key query page]\<rparr>"
  have st1: "uninterrupted E ?st1"
    using assms by (simp add: uninterrupted_def)
  have st2: "uninterrupted E (?st1\<lparr>consecutive_errors := consecutive_errors ?st1 + 1\<rparr>)"
    using assms by (simp add: uninterrupted_def)
  show ?thesis
  proof (cases "get_dict E (length (fetch_log st)) (mk_params key query page)")
    case (Failure e)
    with st1 show ?thesis by (simp add: try_body_def Let_def raise_fine_def)
  next
    case (Response r)
    show ?thesis
    proof (cases "handle_api_error r (page + 1)")
      case (Inl e)
      with Response st1 show ?thesis by (simp add: try_body_def Let_def raise_fine_def)
    next
      case (Inr ct)
      obtain c t where ct: "ct = (c, t)" by (cases ct)
      have po: "step_fine E (process_organic E num_pages delay page rc r ?st1)"
        using st1 by (rule process_organic_fine)
      show ?thesis
        using Response Inr ct st1 st2 po
        by (auto simp: try_body_def Let_def raise_fine_def
            split: prod.splits option.splits dest: py_sleep_fine)
    qed
  qed
qed

lemma attempt_fine:
  assumes "uninterrupted E st"
  shows "step_fine E (attempt E key query num_pages delay page rc st)"
proof -
  have tb: "step_fine E (try_body E key query num_pages delay page rc st)"
    using assms by (rule try_body_fine)
  show ?thesis
  proof (cases "try_body E key query num_pages delay page rc st")
    case (Next rc' ps st')
    with tb show ?thesis by (simp add: attempt_def)
  next
    case (Return st')
    with tb show ?thesis by (simp add: attempt_def)
  next
    case (Raise e rc' ps st')
    show ?thesis
    proof (cases "e = KeyboardInterrupt")
      case True
      with Raise tb show ?thesis by (simp add: attempt_def is_Exception_def)
    next
      case False
      with Raise tb have "uninterrupted E st'" by (simp add: raise_fine_def)
      then show ?thesis
        using Raise False
        by (simp add: attempt_def is_Exception_def handler_wait_fine retry_delay_def)
    qed
  qed
qed

lemma while_page_fine:
  "uninterrupted E st \<Longrightarrow>
     page_fine E (while_page fuel E key query num_pages delay page rc ps st)"
proof (induction fuel arbitrary: rc ps st)
  case 0
  then show ?case by (subst while_page.simps) simp
next
  case (Suc fuel)
  have a: "step_fine E (attempt E key query num_pages delay page rc st)"
    using Suc.prems by (rule attempt_fine)
  show ?case
  proof (cases "rc < max_retries \<and> \<not> ps")
    case False
    with Suc.prems show ?thesis by (simp add: while_page_exit)
  next
    case True
    then have "ps = False" and "rc < max_retries" by simp_all
    then show ?thesis
      using a
      by (cases "attempt E key query num_pages delay page rc st")
         (simp_all add: while_page_step Suc.IH)
  qed
qed

lemma for_pages_fine:
  "uninterrupted E st \<Longrightarrow>
     pages_fine E (for_pages fuel E key query num_pages delay pages st)"
proof (induction pages arbitrary: st)
  case Nil
  then show ?case by simp
next
  case (Cons page rest)
  have w: "page_fine E (while_page fuel E key query num_pages delay page 0 False st)"
    using Cons.prems by (rule while_page_fine)
  show ?case
  proof (cases "while_page fuel E key query num_pages delay page 0 False st")
    case (PageDone ps st')
    with w have "uninterrupted E st'" by simp
    then have "uninterrupted E
        (if \<not> ps then st'\<lparr>consecutive_errors := consecutive_errors st' + 1\<rparr> else st')"
      by (simp add: uninterrupted_def)
    then show ?thesis using PageDone by (simp add: Cons.IH)
  next
    case (PageReturn st')
    with w show ?thesis by simp
  next
    case (PageRaise e st')
    with w show ?thesis by simp
  next
    case (PageOutOfFuel st')
    with w show ?thesis by simp
  qed
qed

text \<open>
  C9. The claim: an interrupt during a backoff or an inter-page wait still makes the
  search hand the records collected so far to its caller. None of the handlers of
  \<open>search_articles\<close> catches KeyboardInterrupt (\<^verbatim>\<open>except Exception\<close> does not), and the
  main program answers it by a message and \<open>sys.exit(0)\<close>. Here the first page gives one
  record and the wait before the second page is interrupted: the search does not
  return; the record stays in \<open>self.results\<close>.
\<close>

theorem interrupted_wait_returns_nothing:
  "search_articles 1
     \<lparr>get_dict = (\<lambda>k p. Response
        (JDict [(''organic_results'', JList [JDict [(''title'', JStr ''T'')]])])),
      interrupt = (\<lambda>k. True)\<rparr> ''key'' ''q'' 2 1 =
   Raised KeyboardInterrupt
     \<lparr>self_results =
        [\<lparr>title = JStr ''T'', authors = ''N/A'', publication = JStr ''N/A'', year = JStr ''N/A'',
          cited_by = JInt 0, link = JStr ''No URL available''\<rparr>],
      consecutive_errors = 0, fetch_log = [mk_params ''key'' ''q'' 0], sleep_log = [1]\<rparr>"
  by code_simp

text \<open>
  C9, amended. If one of the waits of a run (a backoff or an inter-page wait) is
  interrupted, \<open>search_articles\<close> does not return a result: the KeyboardInterrupt
  leaves it, the interrupted wait being the last thing the run did. The records
  collected so far are then only in \<open>self.results\<close> of the scraper object.
\<close>

theorem interrupted_wait_raises:
  assumes "k < length (sleep_log (final_state (search_articles fuel E key query num_pages delay)))"
      and "interrupt E k"
  shows "\<exists>st. search_articles fuel E key query num_pages delay = Raised KeyboardInterrupt st \<and>
              length (sleep_log st) = k + 1"
proof -
  let ?run = "for_pages fuel E key (strip query) num_pages delay [0..<nat num_pages] initial_state"
  have "uninterrupted E initial_state"
    by (simp add: uninterrupted_def initial_state_def)
  then have fine: "pages_fine E ?run" by (rule for_pages_fine)
  have bad: "\<not> uninterrupted E st"
    if "final_state (search_articles fuel E key query num_pages delay) = st" for st
    using assms that by (auto simp: uninterrupted_def)
  show ?thesis
  proof (cases ?run)
    case (PagesDone st)
    with fine bad [of st] show ?thesis by (simp add: search_articles_def)
  next
    case (PagesReturn st)
    with fine bad [of st] show ?thesis by (simp add: search_articles_def)
  next
    case (PagesOutOfFuel st)
    with fine bad [of st] show ?thesis by (simp add: search_articles_def)
  next
    case (PagesRaise e st)
    with fine bad [of st] have e: "e = KeyboardInterrupt" and last: "interrupted_last E st"
      by (simp_all add: search_articles_def raise_fine_def)
    from PagesRaise have st: "final_state (search_articles fuel E key query num_pages delay) = st"
      by (simp add: search_articles_def)
    from assms st have k: "k < length (sleep_log st)" by simp
    from last assms(2) k have "k = length (sleep_log st) - 1"
      by (metis interrupted_last_def less_Suc_eq Suc_diff_1 length_greater_0_conv)
    with k PagesRaise e show ?thesis by (simp add: search_articles_def)
  qed
qed

theorem interrupted_wait_raises_witness:
  "\<exists>st. search_articles 3
     \<lparr>get_dict = (\<lambda>k p. Response (JDict [(''error'', JStr ''Something went wrong'')])),
      interrupt = (\<lambda>k. k = 1)\<rparr> ''key'' ''q'' 4 1 = Raised KeyboardInterrupt st \<and>
     length (sleep_log st) = 1 + 1"
proof -
  have run: "search_articles 3
     \<lparr>get_dict = (\<lambda>k p. Response (JDict [(''error'', JStr ''Something went wrong'')])),
      interrupt = (\<lambda>k. k = 1)\<rparr> ''key'' ''q'' 4 1 =
     Raised KeyboardInterrupt
       \<lparr>self_results = [], consecutive_errors = 2,
        fetch_log = [mk_params ''key'' ''q'' 0, mk_params ''key'' ''q'' 0],
        sleep_log = [5, 10]\<rparr>"
    by code_simp
  have k: "1 < length (sleep_log (final_state (search_articles 3
     \<lparr>get_dict = (\<lambda>k p. Response (JDict [(''error'', JStr ''Something went wrong'')])),
      interrupt = (\<lambda>k. k = 1)\<rparr> ''key'' ''q'' 4 1)))"
    unfolding run by simp
  have i: "interrupt \<lparr>get_dict = (\<lambda>k p. Response (JDict [(''error'', JStr ''Something went wrong'')])),
      interrupt = (\<lambda>k. k = 1)\<rparr> 1"
    by simp
  from interrupted_wait_raises [OF k i] show ?thesis .
qed

text \<open>
  An interrupt that arrives while a request is under way leaves \<open>search_articles\<close> in
  the same way: none of the handlers takes it.
\<close>

lemma interrupted_request_raises:
  assumes "get_dict E (length (fetch_log st)) (mk_params key query page) = Failure KeyboardInterrupt"
  shows "attempt E key query num_pages delay page rc st =
           Raise KeyboardInterrupt rc False
             (st\<lparr>fetch_log := fetch_log st @ [mk_params key query page]\<rparr>)"
  using assms by (simp add: attempt_def try_body_def Let_def is_Exception_def)

section \<open>Increments that are not compared with the ceiling\<close>

text \<open>
  A page whose three attempts all fail with an exception of the request: the loop
  of the page ends without success after three requests and two waits.
\<close>

lemma while_page_requests_fail:
  assumes fails: "\<forall>k p. \<exists>e. get_dict E k p = Failure e \<and> is_Exception e"
      and quiet: "\<forall>k. \<not> interrupt E k"
  shows "\<exists>st'. while_page (Suc (Suc (Suc fuel))) E key query num_pages delay page 0 False st
                 = PageDone False st' \<and>
              self_results st' = self_results st \<and>
              consecutive_errors st' = consecutive_errors st \<and>
              fetch_log st' = fetch_log st @ replicate 3 (mk_params key query page)"
proof -
  let ?p = "mk_params key query page"
  from fails obtain e1 where e1: "get_dict E (length (fetch_log st)) ?p = Failure e1"
    "is_Exception e1" by blast
  from quiet have q1: "\<not> interrupt E (length (sleep_log st))" by simp
  obtain s1 where a1: "attempt E key query num_pages delay page 0 st = Next 1 False s1"
    and s1: "self_results s1 = self_results st" "consecutive_errors s1 = consecutive_errors st"
      "fetch_log s1 = fetch_log st @ [?p]"
    using attempt_fetch_fails [OF e1 q1, of num_pages delay 0] by (simp add: max_retries_def)
  from fails obtain e2 where e2: "get_dict E (length (fetch_log s1)) ?p = Failure e2"
    "is_Exception e2" by blast
  from quiet have q2: "\<not> interrupt E (length (sleep_log s1))" by simp
  obtain s2 where a2: "attempt E key query num_pages delay page 1 s1 = Next 2 False s2"
    and s2: "self_results s2 = self_results s1" "consecutive_errors s2 = consecutive_errors s1"
      "fetch_log s2 = fetch_log s1 @ [?p]"
    using attempt_fetch_fails [OF e2 q2, of num_pages delay 1] by (simp add: max_retries_def)
  from fails obtain e3 where e3: "get_dict E (length (fetch_log s2)) ?p = Failure e3"
    "is_Exception e3" by blast
  from quiet have q3: "\<not> interrupt E (length (sleep_log s2))" by simp
  obtain s3 where a3: "attempt E key query num_pages delay page 2 s2 = Next 3 False s3"
    and s3: "self_results s3 = self_results s2" "consecutive_errors s3 = consecutive_errors s2"
      "fetch_log s3 = fetch_log s2 @ [?p]"
    using attempt_fetch_fails [OF e3 q3, of num_pages delay 2] by (simp add: max_retries_def)
  have "while_page (Suc (Suc (Suc fuel))) E key query num_pages delay page 0 False st =
          while_page fuel E key query num_pages delay page 3 False s3"
    using a1 a2 a3 by (simp add: while_page_step max_retries_def)
  also have "\<dots> = PageDone False s3"
    by (rule while_page_exit) (simp add: max_retries_def)
  finally show ?thesis
    using s1 s2 s3 by (simp add: numeral_3_eq_3)
qed

text \<open>
  When every request fails, a search over any number of pages gives up each page
  after three requests and goes through all the pages: the counter of consecutive
  errors ends at the number of pages, beyond the ceiling, and never stopped the run.
\<close>

lemma for_pages_requests_fail:
  assumes fails: "\<forall>k p. \<exists>e. get_dict E k p = Failure e \<and> is_Exception e"
      and quiet: "\<forall>k. \<not> interrupt E k"
  shows "\<exists>st'. for_pages (Suc (Suc (Suc fuel))) E key query num_pages delay pages st
                 = PagesDone st' \<and>
              self_results st' = self_results st \<and>
              consecutive_errors st' = consecutive_errors st + length pages \<and>
              length (fetch_log st') = length (fetch_log st) + 3 * length pages"
proof (induction pages arbitrary: st)
  case Nil
  show ?case by simp
next
  case (Cons page rest)
  from while_page_requests_fail [OF fails quiet, of fuel key query num_pages delay page st]
  obtain s where w: "while_page (Suc (Suc (Suc fuel))) E key query num_pages delay page 0 False st
                       = PageDone False s"
    and s: "self_results s = self_results st" "consecutive_errors s = consecutive_errors st"
      "fetch_log s = fetch_log st @ replicate 3 (mk_params key query page)"
    by blast
  from Cons.IH [of "s\<lparr>consecutive_errors := consecutive_errors s + 1\<rparr>"]
  obtain st' where
    "for_pages (Suc (Suc (Suc fuel))) E key query num_pages delay rest
       (s\<lparr>consecutive_errors := consecutive_errors s + 1\<rparr>) = PagesDone st'"
    "self_results st' = self_results s"
    "consecutive_errors st' = consecutive_errors s + 1 + length rest"
    "length (fetch_log st') = length (fetch_log s) + 3 * length rest"
    by auto
  with w s show ?case by simp
qed

lemma search_requests_fail:
  assumes fails: "\<forall>k p. \<exists>e. get_dict E k p = Failure e \<and> is_Exception e"
      and quiet: "\<forall>k. \<not> interrupt E k"
  shows "\<exists>st. search_articles (Suc (Suc (Suc fuel))) E key query num_pages delay = Returned [] st \<and>
              consecutive_errors st = nat num_pages \<and>
              length (fetch_log st) = 3 * nat num_pages"
proof -
  from for_pages_requests_fail [OF fails quiet, of fuel key "strip query" num_pages delay
      "[0..<nat num_pages]" initial_state]
  show ?thesis
    by (auto simp: search_articles_def initial_state_def)
qed

text \<open>
  C10. The loop body returns only where the classifier has answered: at a stopping
  tag, or at a retryable error that brings the counter to the ceiling. An
  OK-classified response without items leaves the retry count as it is and the
  counter at exactly 1, whatever it was, and the loop goes on. A page given up
  without success gets its increment after the \<^verbatim>\<open>while\<close> loop, and the \<^verbatim>\<open>for\<close> loop goes on
  with the next page, whatever the counter is.
\<close>

theorem ceiling_checked_only_after_classified_error:
  "(attempt E key query num_pages delay page rc st = Return s \<longrightarrow>
      (\<exists>r c t. get_dict E (length (fetch_log st)) (mk_params key query page) = Response r \<and>
         handle_api_error r (page + 1) = Inr (c, t) \<and>
         (\<not> c \<or> (truthy_type t \<and> max_consecutive_errors \<le> consecutive_errors st + 1))))
   \<and> (get_dict E (length (fetch_log st)) (mk_params key query page) = Response r' \<and>
        handle_api_error r' (page + 1) = Inr (True, None) \<and> no_items r' \<longrightarrow>
        attempt E key query num_pages delay page rc st =
          Next rc False (st\<lparr>fetch_log := fetch_log st @ [mk_params key query page],
                            consecutive_errors := 1\<rparr>))
   \<and> (while_page fuel E key query num_pages delay page 0 False st = PageDone False s' \<longrightarrow>
        for_pages fuel E key query num_pages delay (page # rest) st =
          for_pages fuel E key query num_pages delay rest
            (s'\<lparr>consecutive_errors := consecutive_errors s' + 1\<rparr>))"
proof (intro conjI impI)
  assume "attempt E key query num_pages delay page rc st = Return s"
  then have "try_body E key query num_pages delay page rc st = Return s"
    by (rule attempt_return)
  then show "\<exists>r c t. get_dict E (length (fetch_log st)) (mk_params key query page) = Response r \<and>
         handle_api_error r (page + 1) = Inr (c, t) \<and>
         (\<not> c \<or> (truthy_type t \<and> max_consecutive_errors \<le> consecutive_errors st + 1))"
    by (rule try_body_return)
next
  assume "get_dict E (length (fetch_log st)) (mk_params key query page) = Response r' \<and>
        handle_api_error r' (page + 1) = Inr (True, None) \<and> no_items r'"
  then show "attempt E key query num_pages delay page rc st =
          Next rc False (st\<lparr>fetch_log := fetch_log st @ [mk_params key query page],
                            consecutive_errors := 1\<rparr>)"
    by (simp add: attempt_ok_no_items)
next
  assume "while_page fuel E key query num_pages delay page 0 False st = PageDone False s'"
  then show "for_pages fuel E key query num_pages delay (page # rest) st =
          for_pages fuel E key query num_pages delay rest
            (s'\<lparr>consecutive_errors := consecutive_errors s' + 1\<rparr>)"
    by simp
qed

theorem ceiling_checked_only_after_classified_error_witness:
  "(\<exists>r c t. get_dict
        \<lparr>get_dict = (\<lambda>k p. Response (JDict [(''error'', JStr ''Something went wrong'')])),
         interrupt = (\<lambda>k. False)\<rparr> 0 (mk_params ''key'' ''q'' 0) = Response r \<and>
      handle_api_error r 1 = Inr (c, t) \<and>
      (\<not> c \<or> (truthy_type t \<and> max_consecutive_errors \<le> 2 + 1)))
   \<and> attempt
        \<lparr>get_dict = (\<lambda>k p. Response (JDict [(''organic_results'', JList [])])),
         interrupt = (\<lambda>k. False)\<rparr> ''key'' ''q'' 2 1 0 1
        \<lparr>self_results = [], consecutive_errors = 7, fetch_log = [], sleep_log = []\<rparr> =
      Next 1 False
        \<lparr>self_results = [], consecutive_errors = 1, fetch_log = [mk_params ''key'' ''q'' 0],
         sleep_log = []\<rparr>
   \<and> for_pages 3
        \<lparr>get_dict = (\<lambda>k p. Failure ConnectionError), interrupt = (\<lambda>k. False)\<rparr>
        ''key'' ''q'' 2 1 [0]
        \<lparr>self_results = [], consecutive_errors = 5, fetch_log = [], sleep_log = []\<rparr> =
      PagesDone
        \<lparr>self_results = [], consecutive_errors = 6,
         fetch_log = [mk_params ''key'' ''q'' 0, mk_params ''key'' ''q'' 0,
                      mk_params ''key'' ''q'' 0],
         sleep_log = [5, 10]\<rparr>"
proof -
  let ?Eg = "\<lparr>get_dict = (\<lambda>k p. Response (JDict [(''error'', JStr ''Something went wrong'')])),
         interrupt = (\<lambda>k. False)\<rparr>"
  let ?En = "\<lparr>get_dict = (\<lambda>k p. Response (JDict [(''organic_results'', JList [])])),
         interrupt = (\<lambda>k. False)\<rparr>"
  let ?Ef = "\<lparr>get_dict = (\<lambda>k p. Failure ConnectionError), interrupt = (\<lambda>k. False)\<rparr>"
  let ?s2 = "\<lparr>self_results = [], consecutive_errors = 2, fetch_log = [], sleep_log = []\<rparr>"
  let ?s3 = "\<lparr>self_results = [], consecutive_errors = 3,
              fetch_log = [mk_params ''key'' ''q'' 0], sleep_log = []\<rparr>"
  let ?s5 = "\<lparr>self_results = [], consecutive_errors = 5, fetch_log = [], sleep_log = []\<rparr>"
  let ?s7 = "\<lparr>self_results = [], consecutive_errors = 7, fetch_log = [], sleep_log = []\<rparr>"
  let ?sf = "\<lparr>self_results = [], consecutive_errors = 5,
              fetch_log = [mk_params ''key'' ''q'' 0, mk_params ''key'' ''q'' 0,
                           mk_params ''key'' ''q'' 0],
              sleep_log = [5, 10]\<rparr>"
  have ret: "attempt ?Eg ''key'' ''q'' 2 1 0 0 ?s2 = Return ?s3"
    by code_simp
  have resp: "get_dict ?En (length (fetch_log ?s7)) (mk_params ''key'' ''q'' 0) =
        Response (JDict [(''organic_results'', JList [])])"
    by simp
  have ok: "handle_api_error (JDict [(''organic_results'', JList [])]) (0 + 1) = Inr (True, None)"
    by (simp add: bnd_def lower_def)
  have none: "no_items (JDict [(''organic_results'', JList [])])"
    by (simp add: no_items_def)
  have gone: "while_page 3 ?Ef ''key'' ''q'' 2 1 0 0 False ?s5 = PageDone False ?sf"
    by code_simp
  have 1: "\<exists>r c t. get_dict ?Eg (length (fetch_log ?s2)) (mk_params ''key'' ''q'' 0) = Response r \<and>
      handle_api_error r (0 + 1) = Inr (c, t) \<and>
      (\<not> c \<or> (truthy_type t \<and> max_consecutive_errors \<le> consecutive_errors ?s2 + 1))"
    using ceiling_checked_only_after_classified_error
      [of ?Eg "''key''" "''q''" 2 1 0 0 ?s2 ?s3] ret
    by blast
  have 2: "attempt ?En ''key'' ''q'' 2 1 0 1 ?s7 =
      Next 1 False (?s7\<lparr>fetch_log := fetch_log ?s7 @ [mk_params ''key'' ''q'' 0],
                        consecutive_errors := 1\<rparr>)"
    using ceiling_checked_only_after_classified_error
      [of ?En "''key''" "''q''" 2 1 0 1 ?s7 _ "JDict [(''organic_results'', JList [])]"]
      resp ok none
    by blast
  have 3: "for_pages 3 ?Ef ''key'' ''q'' 2 1 (0 # []) ?s5 =
      for_pages 3 ?Ef ''key'' ''q'' 2 1 []
        (?sf\<lparr>consecutive_errors := consecutive_errors ?sf + 1\<rparr>)"
    using ceiling_checked_only_after_classified_error
      [of ?Ef "''key''" "''q''" 2 1 0 0 ?s5 _ _ 3 ?sf "[]"] gone
    by blast
  from 1 2 3 show ?thesis by simp
qed

section \<open>Runs over pages that all have items\<close>

lemma good_pageD:
  assumes "good_page a"
  obtains d items where "a = Response (JDict d)"
    and "handle_api_error (JDict d) 1 = Inr (True, None)"
    and "map_of d ''organic_results'' = Some (JList items)"
    and "page_items a = items" and "items \<noteq> []" and "list_all normalizes items"
proof (cases a)
  case (Failure e)
  with assms show ?thesis by (simp add: good_page_def)
next
  case (Response r)
  with assms obtain d where r: "r = JDict d"
    by (cases r) (auto simp: good_page_def)
  with assms Response obtain items where "map_of d ''organic_results'' = Some (JList items)"
    by (auto simp: good_page_def split: option.splits json.splits simp del: handle_api_error.simps)
  with assms Response r that show ?thesis
    by (auto simp: good_page_def page_items_def simp del: handle_api_error.simps)
qed

lemma while_page_good:
  assumes good: "good_page (get_dict E (length (fetch_log st)) (mk_params key query page))"
      and quiet: "\<forall>k. \<not> interrupt E k"
  shows "\<exists>st'. while_page (Suc fuel) E key query num_pages delay page 0 False st
                 = PageDone True st' \<and>
              self_results st' = self_results st @
                normalized (page_items (get_dict E (length (fetch_log st))
                                          (mk_params key query page))) \<and>
              fetch_log st' = fetch_log st @ [mk_params key query page] \<and>
              consecutive_errors st' = 0"
proof -
  from good obtain d items where
    resp: "get_dict E (length (fetch_log st)) (mk_params key query page) = Response (JDict d)"
    and ok: "handle_api_error (JDict d) 1 = Inr (True, None)"
    and org: "map_of d ''organic_results'' = Some (JList items)"
    and items: "page_items (get_dict E (length (fetch_log st)) (mk_params key query page)) = items"
      "items \<noteq> []" "list_all normalizes items"
    by (rule good_pageD)
  have ok': "handle_api_error (JDict d) (page + 1) = Inr (True, None)"
    using ok handle_api_error_page [of "JDict d" "page + 1" 1] by simp
  from attempt_ok_items [OF resp ok' org items(2) items(3) quiet, of num_pages delay 0]
  obtain rc' st' where a: "attempt E key query num_pages delay page 0 st = Next rc' True st'"
    and st': "self_results st' = self_results st @ normalized items"
      "fetch_log st' = fetch_log st @ [mk_params key query page]" "consecutive_errors st' = 0"
    by blast
  have "while_page (Suc fuel) E key query num_pages delay page 0 False st =
          while_page fuel E key query num_pages delay page rc' True st'"
    using a by (simp add: while_page_step max_retries_def)
  also have "\<dots> = PageDone True st'"
    by (rule while_page_exit) simp
  finally show ?thesis using st' items(1) by simp
qed

lemma for_pages_good:
  assumes good: "\<forall>k p. good_page (get_dict E k p)"
      and quiet: "\<forall>k. \<not> interrupt E k"
  shows "\<exists>st'. for_pages (Suc fuel) E key query num_pages delay pages st = PagesDone st' \<and>
              self_results st' = self_results st @
                concat (map (\<lambda>(k, page). normalized (page_items
                                 (get_dict E k (mk_params key query page))))
                          (enumerate (length (fetch_log st)) pages)) \<and>
              fetch_log st' = fetch_log st @ map (mk_params key query) pages"
proof (induction pages arbitrary: st)
  case Nil
  show ?case by simp
next
  case (Cons page rest)
  from good have "good_page (get_dict E (length (fetch_log st)) (mk_params key query page))"
    by simp
  from while_page_good [OF this quiet, of fuel num_pages delay]
  obtain s where w: "while_page (Suc fuel) E key query num_pages delay page 0 False st
                       = PageDone True s"
    and s: "self_results s = self_results st @
              normalized (page_items (get_dict E (length (fetch_log st))
                                        (mk_params key query page)))"
      "fetch_log s = fetch_log st @ [mk_params key query page]"
    by blast
  from Cons.IH [of s] obtain st' where
    r: "for_pages (Suc fuel) E key query num_pages delay rest s = PagesDone st'"
    and st': "self_results st' = self_results s @
                concat (map (\<lambda>(k, page). normalized (page_items
                                 (get_dict E k (mk_params key query page))))
                          (enumerate (length (fetch_log s)) rest))"
      "fetch_log st' = fetch_log s @ map (mk_params key query) rest"
    by blast
  from w r have "for_pages (Suc fuel) E key query num_pages delay (page # rest) st = PagesDone st'"
    by simp
  with s st' show ?case by simp
qed

lemma enumerate_pages:
  "map (\<lambda>(k, page). f k page) (enumerate 0 [0..<n]) = map (\<lambda>page. f page page) [0..<n]"
  by (simp add: enumerate_eq_zip zip_same_conv_map)

lemma length_concat_const:
  "(\<And>x. x \<in> set xs \<Longrightarrow> length (f x) = n) \<Longrightarrow> length (concat (map f xs)) = length xs * n"
  by (induction xs) simp_all

text \<open>
  The part of C3 that the code fulfils. Against a service that always answers with a
  page of items that normalize, and with no wait interrupted, a search over P pages
  sends one request per page and returns the normalized items of the pages, page
  after page and in the order of the items; with N items on every page these are P
  times N records. Every page has at least one item here; pages without items are
  the subject of the section on runs that do not end.
\<close>

lemma search_pages_with_items:
  assumes good: "\<forall>k p. good_page (get_dict E k p)"
      and quiet: "\<forall>k. \<not> interrupt E k"
      and count: "\<forall>k p. length (page_items (get_dict E k p)) = N"
  shows "\<exists>st. search_articles (Suc fuel) E key query P delay =
                Returned (concat (map (\<lambda>page. normalized (page_items
                                     (get_dict E page (mk_params key (strip query) page))))
                                   [0..<nat P])) st \<and>
              length (self_results st) = nat P * N \<and>
              fetch_log st = map (mk_params key (strip query)) [0..<nat P]"
proof -
  let ?f = "\<lambda>k page. normalized (page_items (get_dict E k (mk_params key (strip query) page)))"
  from for_pages_good [OF good quiet, of fuel key "strip query" P delay "[0..<nat P]" initial_state]
  obtain st where
    run: "for_pages (Suc fuel) E key (strip query) P delay [0..<nat P] initial_state = PagesDone st"
    and res: "self_results st = concat (map (\<lambda>(k, page). ?f k page) (enumerate 0 [0..<nat P]))"
    and log: "fetch_log st = map (mk_params key (strip query)) [0..<nat P]"
    by (auto simp: initial_state_def)
  have res': "self_results st = concat (map (\<lambda>page. ?f page page) [0..<nat P])"
    using res by (simp only: enumerate_pages)
  have "length (?f page page) = N" for page
  proof -
    from good have "good_page (get_dict E page (mk_params key (strip query) page))"
      by simp
    then have "list_all normalizes
        (page_items (get_dict E page (mk_params key (strip query) page)))"
      by (rule good_pageD) simp
    with count [rule_format, of page "mk_params key (strip query) page"]
    show ?thesis by (simp add: length_normalized)
  qed
  then have "length (self_results st) = length [0..<nat P] * N"
    unfolding res' by (intro length_concat_const) simp
  with run res' log show ?thesis by (simp add: search_articles_def)
qed

section \<open>Runs that end\<close>

text \<open>Every pass through the loop body sends exactly one request.\<close>

lemma process_organic_fetch_log:
  "fetch_log (step_state (process_organic E num_pages delay page rc r st)) = fetch_log st"
  by (cases r)
     (auto simp: process_organic_def Let_def
           split: option.splits sum.splits prod.splits
           dest!: collect_logs py_sleep_keeps)

lemma try_body_fetch_log:
  "fetch_log (step_state (try_body E key query num_pages delay page rc st)) =
     fetch_log st @ [mk_params key query page]"
  by (auto simp: try_body_def Let_def process_organic_fetch_log
      split: fetch_outcome.splits sum.splits prod.splits option.splits
      dest!: py_sleep_keeps)

lemma attempt_fetch_log:
  "fetch_log (step_state (attempt E key query num_pages delay page rc st)) =
     fetch_log st @ [mk_params key query page]"
  using attempt_keeps [of E key query num_pages delay page rc st]
  by (simp add: try_body_fetch_log)

text \<open>
  Unless the answer is a response without items, a pass after which the loop goes on
  has made the page a success or has counted a retry.
\<close>

lemma handler_wait_next:
  "handler_wait E t rc ps st = Next rc' ps' st' \<Longrightarrow> rc' = rc \<and> ps' = ps"
  by (auto simp: handler_wait_def split: if_splits prod.splits option.splits)

lemma process_organic_next:
  assumes "process_organic E num_pages delay page rc r st = Next rc' ps st'"
      and "\<not> no_items r"
  shows "ps \<and> rc' = rc"
  using assms
  by (cases r)
     (auto simp: process_organic_def no_items_def Let_def
           split: option.splits sum.splits prod.splits if_splits)

lemma process_organic_raise:
  "process_organic E num_pages delay page rc r st = Raise e rc' ps st' \<Longrightarrow> rc' = rc"
  by (cases r)
     (auto simp: process_organic_def Let_def
           split: option.splits sum.splits prod.splits if_splits)

lemma py_sleep_exception:
  "py_sleep E t st = (Some e, st') \<Longrightarrow> 0 \<le> t \<Longrightarrow> e = KeyboardInterrupt"
  by (auto simp: py_sleep_def split: if_splits)

lemma try_body_next:
  assumes nosoft: "\<not> soft_failure (get_dict E (length (fetch_log st)) (mk_params key query page))"
      and nxt: "try_body E key query num_pages delay page rc st = Next rc' ps st'"
  shows "ps \<or> rc' = rc + 1"
proof (cases "get_dict E (length (fetch_log st)) (mk_params key query page)")
  case (Failure e)
  with nxt show ?thesis by (simp add: try_body_def Let_def)
next
  case (Response r)
  show ?thesis
  proof (cases "handle_api_error r (page + 1)")
    case (Inl e)
    with nxt Response show ?thesis by (simp add: try_body_def Let_def)
  next
    case (Inr ct)
    obtain c t where ct: "ct = (c, t)" by (cases ct)
    show ?thesis
    proof (cases "c \<and> \<not> truthy_type t")
      case False
      with nxt Response Inr ct show ?thesis
        by (auto simp: try_body_def Let_def split: if_splits prod.splits option.splits)
    next
      case True
      from error_type_cases Inr ct True have t: "t = None"
        by (cases t) fastforce+
      with Inr ct True have "handle_api_error r 1 = Inr (True, None)"
        using handle_api_error_page [of r 1 "page + 1"] by simp
      with nosoft Response have "\<not> no_items r" by (simp add: soft_failure_def)
      moreover from nxt Response Inr ct True t
      have "process_organic E num_pages delay page rc r
              (st\<lparr>fetch_log := fetch_log st @ [mk_params key query page]\<rparr>) = Next rc' ps st'"
        by (simp add: try_body_def Let_def)
      ultimately show ?thesis by (auto dest: process_organic_next)
    qed
  qed
qed

lemma try_body_raise:
  assumes "try_body E key query num_pages delay page rc st = Raise e rc0 ps st'"
  shows "rc0 = rc \<or> e = KeyboardInterrupt"
  using assms
  by (auto simp: try_body_def Let_def retry_delay_def
      split: fetch_outcome.splits sum.splits prod.splits option.splits if_splits
      dest: process_organic_raise py_sleep_exception)

lemma attempt_progress:
  assumes nosoft: "\<not> soft_failure (get_dict E (length (fetch_log st)) (mk_params key query page))"
      and nxt: "attempt E key query num_pages delay page rc st = Next rc' ps st'"
  shows "ps \<or> rc' = rc + 1"
proof (cases "try_body E key query num_pages delay page rc st")
  case (Next rc1 ps1 st1)
  with nxt have "try_body E key query num_pages delay page rc st = Next rc' ps st'"
    by (simp add: attempt_def)
  with nosoft show ?thesis by (rule try_body_next)
next
  case (Return st1)
  with nxt show ?thesis by (simp add: attempt_def)
next
  case (Raise e rc0 ps0 st0)
  from try_body_raise [OF Raise] nxt Raise show ?thesis
    by (auto simp: attempt_def is_Exception_def split: if_splits dest: handler_wait_next)
qed

text \<open>
  Against a service that never answers with a response without items, the loop of a
  page ends within \<open>max_retries\<close> passes, and so sends at most that many requests.
\<close>

lemma while_page_ends:
  assumes nosoft: "\<forall>k p. \<not> soft_failure (get_dict E k p)"
  shows "max_retries \<le> fuel + rc \<Longrightarrow>
     (\<forall>s. while_page fuel E key query num_pages delay page rc ps st \<noteq> PageOutOfFuel s) \<and>
     length (fetch_log (page_state (while_page fuel E key query num_pages delay page rc ps st)))
       \<le> length (fetch_log st) + (max_retries - rc)"
proof (induction fuel arbitrary: rc ps st)
  case 0
  then show ?case by (simp add: while_page_exit)
next
  case (Suc fuel)
  show ?case
  proof (cases "rc < max_retries \<and> \<not> ps")
    case False
    then show ?thesis by (simp add: while_page_exit)
  next
    case True
    then have ps: "ps = False" and rc: "rc < max_retries" by simp_all
    have one: "length (fetch_log (step_state (attempt E key query num_pages delay page rc st)))
                 = length (fetch_log st) + 1"
      by (simp add: attempt_fetch_log)
    show ?thesis
    proof (cases "attempt E key query num_pages delay page rc st")
      case (Next rc' ps' st')
      from nosoft have "\<not> soft_failure (get_dict E (length (fetch_log st))
                                           (mk_params key query page))"
        by simp
      from attempt_progress [OF this Next] have prog: "ps' \<or> rc' = rc + 1" .
      show ?thesis
      proof (cases ps')
        case True
        with Next rc ps one show ?thesis
          by (simp add: while_page_step while_page_exit)
      next
        case False
        with prog have rc': "rc' = rc + 1" by simp
        with Suc.prems have "max_retries \<le> fuel + rc'" by simp
        from Suc.IH [OF this, of ps' st'] Next rc ps one rc' show ?thesis
          by (simp add: while_page_step)
      qed
    next
      case (Return st')
      with rc ps one show ?thesis by (simp add: while_page_step)
    next
      case (Raise e rc' ps' st')
      with rc ps one show ?thesis by (simp add: while_page_step)
    qed
  qed
qed

lemma for_pages_ends:
  assumes nosoft: "\<forall>k p. \<not> soft_failure (get_dict E k p)"
      and fuel: "max_retries \<le> fuel"
  shows "for_pages fuel E key query num_pages delay pages st \<noteq> PagesOutOfFuel s"
proof (induction pages arbitrary: st)
  case Nil
  show ?case by simp
next
  case (Cons page rest)
  from while_page_ends [OF nosoft, of fuel 0 key query num_pages delay page False st] fuel
  have "\<forall>s. while_page fuel E key query num_pages delay page 0 False st \<noteq> PageOutOfFuel s"
    by simp
  then show ?case
    by (cases "while_page fuel E key query num_pages delay page 0 False st")
       (simp_all add: Cons.IH)
qed

text \<open>
  The part of C1 that the code fulfils: against a service that never answers with an
  OK-classified response without items, \<open>search_articles\<close> ends, by a return or by an
  exception, three passes per page being enough.
\<close>

lemma search_ends:
  assumes "\<forall>k p. \<not> soft_failure (get_dict E k p)"
  shows "\<exists>st. search_articles 3 E key query num_pages delay = Returned (self_results st) st \<or>
              (\<exists>e. search_articles 3 E key query num_pages delay = Raised e st)"
proof -
  from for_pages_ends [OF assms, of 3]
  have "\<forall>s. for_pages 3 E key (strip query) num_pages delay [0..<nat num_pages] initial_state
          \<noteq> PagesOutOfFuel s"
    by (simp add: max_retries_def)
  then show ?thesis
    by (cases "for_pages 3 E key (strip query) num_pages delay [0..<nat num_pages] initial_state")
       (auto simp: search_articles_def)
qed

text \<open>An example for \<open>search_pages_with_items\<close>: two pages of two items each.\<close>

lemma search_two_pages_in_order:
  "(case search_articles 1
     \<lparr>get_dict = (\<lambda>k p. Response (JDict [(''organic_results'',
          JList [JDict [(''title'', JInt (p_start p))],
                 JDict [(''title'', JInt (p_start p + 1))]])])),
      interrupt = (\<lambda>k. False)\<rparr> ''key'' ''q'' 2 1 of
      Returned rs st \<Rightarrow> map title rs
    | _ \<Rightarrow> []) = [JInt 0, JInt 1, JInt 10, JInt 11]"
  by code_simp

end
